theory Spec2Isabelle
  imports Main "HOL-Library.Word" "HOL-Library.Signed_Division" "HOL-Library.Monad_Syntax"
begin

section \<open>Machine integers\<close>

text \<open>
  The C++ type \<open>int\<close> is a 32-bit two's complement integer. Signed overflow is undefined
  behaviour, so the arithmetic of the transforms is modelled on unbounded \<open>int\<close>, with the
  truncating division and remainder of C++ (\<open>sdiv\<close>, \<open>smod\<close>); the range of an \<open>int\<close> is
  the predicate \<open>int32\<close>. The one place where the source leaves signed arithmetic is the
  conversion \<open>static_cast<unsigned>\<close>, which is reduction modulo \<open>2 ^ 32\<close>: it is modelled by
  the conversion into \<open>32 word\<close>.
\<close>

definition int32 :: "int \<Rightarrow> bool" where
  "int32 a \<longleftrightarrow> - (2 ^ 31) \<le> a \<and> a < 2 ^ 31"

definition static_cast_unsigned :: "int \<Rightarrow> 32 word" where
  "static_cast_unsigned a = word_of_int a"

text \<open>\<^verbatim>\<open>return static_cast<unsigned>(a) < static_cast<unsigned>(b);\<close>\<close>

definition is_a_ge_zero_and_a_lt_b :: "int \<Rightarrow> int \<Rightarrow> bool" where
  "is_a_ge_zero_and_a_lt_b a b \<longleftrightarrow> static_cast_unsigned a < static_cast_unsigned b"


section \<open>Buffers and pointers\<close>

text \<open>
  A buffer is the list of its elements; a pointer into it is an \<open>int\<close> offset from its
  start. A read or write outside the buffer is undefined behaviour in the source: here it
  is the result \<open>None\<close>, which every caller propagates.
\<close>

definition in_buf :: "'a list \<Rightarrow> int \<Rightarrow> bool" where
  "in_buf b i \<longleftrightarrow> 0 \<le> i \<and> i < int (length b)"

definition load :: "'a list \<Rightarrow> int \<Rightarrow> 'a option" where
  "load b i = (if in_buf b i then Some (b ! nat i) else None)"

definition store :: "'a list \<Rightarrow> int \<Rightarrow> 'a \<Rightarrow> 'a list option" where
  "store b i v = (if in_buf b i then Some (b[nat i := v]) else None)"


section \<open>Loops\<close>

text \<open>\<^verbatim>\<open>for (int i = i0; i < n; ++i) body\<close>, the body threading a state.\<close>

function for_up :: "int \<Rightarrow> int \<Rightarrow> (int \<Rightarrow> 's \<Rightarrow> 's option) \<Rightarrow> 's \<Rightarrow> 's option" where
  "for_up i n body s =
     (if i < n then (case body i s of None \<Rightarrow> None | Some s' \<Rightarrow> for_up (i + 1) n body s')
      else Some s)"
  by pat_completeness auto
termination
  by (relation "measure (\<lambda>(i, n, body, s). nat (n - i))") auto

declare for_up.simps [simp del]

text \<open>
  \<^verbatim>\<open>for (int n = n0; n; n--) body\<close>: the loop runs until the counter is zero, so it does
  not return when started below zero.
\<close>

partial_function (option) count_down :: "int \<Rightarrow> ('s \<Rightarrow> 's option) \<Rightarrow> 's \<Rightarrow> 's option" where
  "count_down n body s =
     (if n = 0 then Some s else Option.bind (body s) (count_down (n - 1) body))"

declare count_down.simps [code]




section \<open>Library primitives\<close>

text \<open>
  \<open>memcpy dst dp src sp n\<close> is \<^verbatim>\<open>memcpy(dst + dp, src + sp, sizeof(float) * n)\<close> and
  \<open>memset_zero dst dp n\<close> is \<^verbatim>\<open>memset(dst + dp, 0, sizeof(float) * n)\<close>. A negative count
  converts to a huge \<open>size_t\<close>, hence leaves every buffer.
\<close>

definition memcpy :: "'a list \<Rightarrow> int \<Rightarrow> 'a list \<Rightarrow> int \<Rightarrow> int \<Rightarrow> 'a list option" where
  "memcpy dst dp src sp n =
     (if n < 0 then None
      else for_up 0 n (\<lambda>i b. do { v \<leftarrow> load src (sp + i); store b (dp + i) v }) dst)"


text \<open>\<^verbatim>\<open>Set<T, CPUContext>(N, alpha, Y)\<close>: \<^verbatim>\<open>EigenVectorMap<T>(Y, N).setConstant(alpha)\<close>.\<close>

definition Set :: "int \<Rightarrow> 'a \<Rightarrow> 'a list \<Rightarrow> 'a list option" where
  "Set N alpha Y = (if N < 0 then None else for_up 0 N (\<lambda>i b. store b i alpha) Y)"



section \<open>The window descriptor\<close>

text \<open>The thirteen \<open>int\<close> parameters that every transform takes, in the source's order.\<close>

record window =
  channels :: int
  height :: int
  width :: int
  kernel_h :: int
  kernel_w :: int
  dilation_h :: int
  dilation_w :: int
  pad_t :: int
  pad_l :: int
  pad_b :: int
  pad_r :: int
  stride_h :: int
  stride_w :: int

text \<open>The output size as the channel-major transforms compute it.\<close>

definition output_h :: "window \<Rightarrow> int" where
  "output_h d =
     (height d + pad_b d + pad_t d - (dilation_h d * (kernel_h d - 1) + 1)) sdiv stride_h d + 1"

definition output_w :: "window \<Rightarrow> int" where
  "output_w d =
     (width d + pad_l d + pad_r d - (dilation_w d * (kernel_w d - 1) + 1)) sdiv stride_w d + 1"

text \<open>The same as the baseline paths and the channel-minor transforms compute it.\<close>

definition dkernel_h :: "window \<Rightarrow> int" where
  "dkernel_h d = dilation_h d * (kernel_h d - 1) + 1"

definition dkernel_w :: "window \<Rightarrow> int" where
  "dkernel_w d = dilation_w d * (kernel_w d - 1) + 1"

definition height_col :: "window \<Rightarrow> int" where
  "height_col d = (height d + pad_t d + pad_b d - dkernel_h d) sdiv stride_h d + 1"

definition width_col :: "window \<Rightarrow> int" where
  "width_col d = (width d + pad_l d + pad_r d - dkernel_w d) sdiv stride_w d + 1"

text \<open>The dispatch tests of the channel-major transforms.\<close>

definition zero_pad_no_dilation :: "window \<Rightarrow> bool" where
  "zero_pad_no_dilation d \<longleftrightarrow>
     dilation_h d = 1 \<and> dilation_w d = 1 \<and> pad_l d = 0 \<and> pad_r d = 0 \<and>
     pad_t d = 0 \<and> pad_b d = 0"

definition equal_padding :: "window \<Rightarrow> bool" where
  "equal_padding d \<longleftrightarrow> pad_l d = pad_r d \<and> pad_t d = pad_b d"


section \<open>Im2col, channel-major (NCHW)\<close>

subsection \<open>Fast path for zero padding and no dilation\<close>

definition im2col_zero_pad_row ::
  "window \<Rightarrow> 'a list \<Rightarrow> int \<Rightarrow> int \<Rightarrow> int \<Rightarrow> int \<Rightarrow> int \<Rightarrow> 'a list \<Rightarrow> 'a list option" where
  "im2col_zero_pad_row d data_im dst src kh kw y col =
     (let iy = y * stride_h d + kh; ix = kw in
      if stride_w d = 1 then
        memcpy col (dst + (y * output_w d)) data_im (src + (iy * width d + ix)) (output_w d)
      else
        for_up 0 (output_w d) (\<lambda>x col.
          memcpy col (dst + (y * output_w d + x))
            data_im (src + (iy * width d + ix + x * stride_w d)) 1) col)"

definition im2col_zero_pad_plane :: "window \<Rightarrow> 'a list \<Rightarrow> int \<Rightarrow> 'a list \<Rightarrow> 'a list option" where
  "im2col_zero_pad_plane d data_im k col =
     (let nip = k sdiv (kernel_h d * kernel_w d);
          rest = k smod (kernel_h d * kernel_w d);
          kh = rest sdiv kernel_w d;
          kw = rest smod kernel_w d;
          dst = nip * (kernel_h d * kernel_w d * output_h d * output_w d) +
                kh * (kernel_w d * output_h d * output_w d) + kw * (output_h d * output_w d);
          src = nip * (height d * width d)
      in for_up 0 (output_h d) (im2col_zero_pad_row d data_im dst src kh kw) col)"

definition Im2col_zero_pad :: "window \<Rightarrow> 'a list \<Rightarrow> 'a list \<Rightarrow> 'a list option" where
  "Im2col_zero_pad d data_im data_col =
     for_up 0 (channels d * kernel_h d * kernel_w d) (im2col_zero_pad_plane d data_im) data_col"

subsection \<open>Fast path for equal padding\<close>

text \<open>
  The state of the scan is the write pointer \<open>data_col\<close> with the column buffer, and the
  running coordinate where a loop carries one. \<open>im\<close> is the offset that
  \<^verbatim>\<open>data_im += channel_size\<close> has reached.
\<close>

definition im2col_scan_zero_row :: "window \<Rightarrow> int \<times> 'a::zero list \<Rightarrow> (int \<times> 'a list) option" where
  "im2col_scan_zero_row d =
     count_down (output_w d) (\<lambda>(data_col, col). do {
       col' \<leftarrow> store col data_col 0;
       Some (data_col + 1, col') })"

definition im2col_scan_copy_row ::
  "window \<Rightarrow> 'a::zero list \<Rightarrow> int \<Rightarrow> int \<Rightarrow> int \<Rightarrow> int \<times> 'a list \<Rightarrow> (int \<times> 'a list) option" where
  "im2col_scan_copy_row d data_im im input_row kernel_col = (\<lambda>(data_col, col). do {
     (input_col, data_col', col') \<leftarrow>
       count_down (output_w d) (\<lambda>(input_col, data_col, col). do {
         col' \<leftarrow> (if is_a_ge_zero_and_a_lt_b input_col (width d)
                  then do { v \<leftarrow> load data_im (im + (input_row * width d + input_col));
                            store col data_col v }
                  else store col data_col 0);
         Some (input_col + stride_w d, data_col + 1, col') })
       (- pad_l d + kernel_col * dilation_w d, data_col, col);
     Some (data_col', col') })"

definition im2col_scan_rows ::
  "window \<Rightarrow> 'a::zero list \<Rightarrow> int \<Rightarrow> int \<Rightarrow> int \<Rightarrow> int \<times> 'a list \<Rightarrow> (int \<times> 'a list) option" where
  "im2col_scan_rows d data_im im kernel_row kernel_col = (\<lambda>(data_col, col). do {
     (input_row, data_col', col') \<leftarrow>
       count_down (output_h d) (\<lambda>(input_row, data_col, col). do {
         (data_col', col') \<leftarrow>
           (if \<not> is_a_ge_zero_and_a_lt_b input_row (height d)
            then im2col_scan_zero_row d (data_col, col)
            else im2col_scan_copy_row d data_im im input_row kernel_col (data_col, col));
         Some (input_row + stride_h d, data_col', col') })
       (- pad_t d + kernel_row * dilation_h d, data_col, col);
     Some (data_col', col') })"

definition Im2col_equal_pad :: "window \<Rightarrow> 'a::zero list \<Rightarrow> 'a list \<Rightarrow> 'a list option" where
  "Im2col_equal_pad d data_im data_col = do {
     (im, data_col', col') \<leftarrow>
       count_down (channels d) (\<lambda>(im, data_col, col). do {
         (data_col', col') \<leftarrow>
           for_up 0 (kernel_h d) (\<lambda>kernel_row.
             for_up 0 (kernel_w d) (\<lambda>kernel_col.
               im2col_scan_rows d data_im im kernel_row kernel_col)) (data_col, col);
         Some (im + height d * width d, data_col', col') })
       (0, 0, data_col);
     Some col' }"

subsection \<open>Baseline\<close>

definition im2col_baseline_entry ::
  "window \<Rightarrow> 'a::zero list \<Rightarrow> int \<Rightarrow> int \<Rightarrow> int \<Rightarrow> 'a list \<Rightarrow> 'a list option" where
  "im2col_baseline_entry d data_im c h w col =
     (let w_offset = c smod kernel_w d;
          h_offset = (c sdiv kernel_w d) smod kernel_h d;
          c_im = c sdiv kernel_h d sdiv kernel_w d;
          h_pad = h * stride_h d - pad_t d + h_offset * dilation_h d;
          w_pad = w * stride_w d - pad_l d + w_offset * dilation_w d
      in if h_pad \<ge> 0 \<and> h_pad < height d \<and> w_pad \<ge> 0 \<and> w_pad < width d
         then do { v \<leftarrow> load data_im ((c_im * height d + h_pad) * width d + w_pad);
                   store col ((c * height_col d + h) * width_col d + w) v }
         else store col ((c * height_col d + h) * width_col d + w) 0)"

definition Im2col_baseline :: "window \<Rightarrow> 'a::zero list \<Rightarrow> 'a list \<Rightarrow> 'a list option" where
  "Im2col_baseline d data_im data_col =
     for_up 0 (channels d * kernel_h d * kernel_w d) (\<lambda>c.
       for_up 0 (height_col d) (\<lambda>h.
         for_up 0 (width_col d) (\<lambda>w. im2col_baseline_entry d data_im c h w))) data_col"

subsection \<open>The transform\<close>

definition Im2col_NCHW :: "window \<Rightarrow> 'a::zero list \<Rightarrow> 'a list \<Rightarrow> 'a list option" where
  "Im2col_NCHW d data_im data_col =
     (if zero_pad_no_dilation d then Im2col_zero_pad d data_im data_col
      else if equal_padding d then Im2col_equal_pad d data_im data_col
      else Im2col_baseline d data_im data_col)"


section \<open>Im2col, channel-minor (NHWC)\<close>





section \<open>Col2im, channel-major (NCHW)\<close>

subsection \<open>Fast path for zero padding and no dilation\<close>

definition col2im_zero_pad_row ::
  "window \<Rightarrow> 'a::plus list \<Rightarrow> int \<Rightarrow> int \<Rightarrow> int \<Rightarrow> int \<Rightarrow> int \<Rightarrow> 'a list \<Rightarrow> 'a list option" where
  "col2im_zero_pad_row d data_col dst src kh kw y im =
     (let iy = y * stride_h d + kh; ix = kw in
      if stride_w d = 1 then
        (let offsrc = src + (iy * width d + ix); offdst = dst + (y * output_w d) in
         for_up 0 (output_w d) (\<lambda>i im. do {
           u \<leftarrow> load im (offsrc + i);
           v \<leftarrow> load data_col (offdst + i);
           store im (offsrc + i) (u + v) }) im)
      else
        for_up 0 (output_w d) (\<lambda>x im.
          (let offsrc = src + (iy * width d + ix + x * stride_w d);
               offdst = dst + (y * output_w d + x) in do {
           u \<leftarrow> load im offsrc;
           v \<leftarrow> load data_col offdst;
           store im offsrc (u + v) })) im)"

definition col2im_zero_pad_plane ::
  "window \<Rightarrow> 'a::plus list \<Rightarrow> int \<Rightarrow> 'a list \<Rightarrow> 'a list option" where
  "col2im_zero_pad_plane d data_col k im =
     (let nip = k sdiv (kernel_h d * kernel_w d);
          rest = k smod (kernel_h d * kernel_w d);
          kh = rest sdiv kernel_w d;
          kw = rest smod kernel_w d;
          dst = nip * (kernel_h d * kernel_w d * output_h d * output_w d) +
                kh * (kernel_w d * output_h d * output_w d) + kw * (output_h d * output_w d);
          src = nip * (height d * width d)
      in for_up 0 (output_h d) (col2im_zero_pad_row d data_col dst src kh kw) im)"

definition Col2im_zero_pad :: "window \<Rightarrow> 'a::plus list \<Rightarrow> 'a list \<Rightarrow> 'a list option" where
  "Col2im_zero_pad d data_col data_im =
     for_up 0 (channels d * kernel_h d * kernel_w d) (col2im_zero_pad_plane d data_col) data_im"

subsection \<open>Fast path for equal padding\<close>

text \<open>
  Here \<open>data_col\<close> is the read pointer into the column buffer, and \<open>im\<close> the offset of the
  current channel in the image \<open>img\<close>.
\<close>

definition col2im_scan_add_row ::
  "window \<Rightarrow> 'a::plus list \<Rightarrow> int \<Rightarrow> int \<Rightarrow> int \<Rightarrow> int \<times> 'a list \<Rightarrow> (int \<times> 'a list) option" where
  "col2im_scan_add_row d col im input_row kernel_col = (\<lambda>(data_col, img). do {
     (input_col, data_col', img') \<leftarrow>
       count_down (output_w d) (\<lambda>(input_col, data_col, img). do {
         img' \<leftarrow> (if is_a_ge_zero_and_a_lt_b input_col (width d)
                  then do { u \<leftarrow> load img (im + (input_row * width d + input_col));
                            v \<leftarrow> load col data_col;
                            store img (im + (input_row * width d + input_col)) (u + v) }
                  else Some img);
         Some (input_col + stride_w d, data_col + 1, img') })
       (- pad_l d + kernel_col * dilation_w d, data_col, img);
     Some (data_col', img') })"

definition col2im_scan_rows ::
  "window \<Rightarrow> 'a::plus list \<Rightarrow> int \<Rightarrow> int \<Rightarrow> int \<Rightarrow> int \<times> 'a list \<Rightarrow> (int \<times> 'a list) option" where
  "col2im_scan_rows d col im kernel_row kernel_col = (\<lambda>(data_col, img). do {
     (input_row, data_col', img') \<leftarrow>
       count_down (output_h d) (\<lambda>(input_row, data_col, img). do {
         (data_col', img') \<leftarrow>
           (if \<not> is_a_ge_zero_and_a_lt_b input_row (height d)
            then Some (data_col + output_w d, img)
            else col2im_scan_add_row d col im input_row kernel_col (data_col, img));
         Some (input_row + stride_h d, data_col', img') })
       (- pad_t d + kernel_row * dilation_h d, data_col, img);
     Some (data_col', img') })"

definition Col2im_equal_pad :: "window \<Rightarrow> 'a::plus list \<Rightarrow> 'a list \<Rightarrow> 'a list option" where
  "Col2im_equal_pad d col data_im = do {
     (im, data_col', img') \<leftarrow>
       count_down (channels d) (\<lambda>(im, data_col, img). do {
         (data_col', img') \<leftarrow>
           for_up 0 (kernel_h d) (\<lambda>kernel_row.
             for_up 0 (kernel_w d) (\<lambda>kernel_col.
               col2im_scan_rows d col im kernel_row kernel_col)) (data_col, img);
         Some (im + height d * width d, data_col', img') })
       (0, 0, data_im);
     Some img' }"

subsection \<open>Fallback\<close>

definition col2im_fallback_entry ::
  "window \<Rightarrow> 'a::plus list \<Rightarrow> int \<Rightarrow> int \<Rightarrow> int \<Rightarrow> 'a list \<Rightarrow> 'a list option" where
  "col2im_fallback_entry d data_col c h w im =
     (let w_offset = c smod kernel_w d;
          h_offset = (c sdiv kernel_w d) smod kernel_h d;
          c_im = c sdiv kernel_h d sdiv kernel_w d;
          h_pad = h * stride_h d - pad_t d + h_offset * dilation_h d;
          w_pad = w * stride_w d - pad_l d + w_offset * dilation_w d
      in if h_pad \<ge> 0 \<and> h_pad < height d \<and> w_pad \<ge> 0 \<and> w_pad < width d
         then do { u \<leftarrow> load im ((c_im * height d + h_pad) * width d + w_pad);
                   v \<leftarrow> load data_col ((c * height_col d + h) * width_col d + w);
                   store im ((c_im * height d + h_pad) * width d + w_pad) (u + v) }
         else Some im)"

definition Col2im_fallback :: "window \<Rightarrow> 'a::plus list \<Rightarrow> 'a list \<Rightarrow> 'a list option" where
  "Col2im_fallback d data_col data_im =
     for_up 0 (channels d * kernel_h d * kernel_w d) (\<lambda>c.
       for_up 0 (height_col d) (\<lambda>h.
         for_up 0 (width_col d) (\<lambda>w. col2im_fallback_entry d data_col c h w))) data_im"

subsection \<open>The transform\<close>

definition Col2im_NCHW :: "window \<Rightarrow> 'a::{zero,plus} list \<Rightarrow> 'a list \<Rightarrow> 'a list option" where
  "Col2im_NCHW d data_col data_im = do {
     im \<leftarrow> Set (height d * width d * channels d) 0 data_im;
     if zero_pad_no_dilation d then Col2im_zero_pad d data_col im
     else if equal_padding d then Col2im_equal_pad d data_col im
     else Col2im_fallback d data_col im }"


section \<open>Col2im, channel-minor (NHWC)\<close>





section \<open>Sample values\<close>

text \<open>
  The transforms are instantiated at \<open>float\<close>, the IEEE binary32 numbers. They copy
  samples, write the constant 0 and add two samples (\<^verbatim>\<open>+=\<close>, and \<open>Add\<close>): the model is
  polymorphic in the type of the samples, of which it uses the zero and the addition and no
  law of arithmetic. What is proved of every such type holds of \<open>float\<close> with its rounding
  addition.

  The type \<open>float32\<close> models the binary32 numbers that are integers, for running the
  transforms on \<open>float\<close> buffers. Every integer of magnitude less than \<open>2 ^ 24\<close> is a binary32
  number; for \<open>e \<ge> 24\<close> the binary32 numbers of magnitude in \<open>[2 ^ e, 2 ^ (e + 1)]\<close> are the
  multiples of \<open>2 ^ (e - 23)\<close>, the unit in the last place of that range. The sum of two
  binary32 numbers is their exact sum rounded to the nearest binary32 number, and of two
  nearest ones to the one with the even significand (the default rounding mode). The exact
  sum of two integers is an integer, and so is its rounding. A sum of magnitude \<open>2 ^ 128\<close>
  or more overflows to infinity and is outside this model.
\<close>

function binary32_ulp :: "int \<Rightarrow> int" where
  "binary32_ulp m = (if m < 2 ^ 24 then 1 else 2 * binary32_ulp (m div 2))"
  by pat_completeness auto
termination by (relation "measure nat") auto

declare binary32_ulp.simps [simp del]

definition binary32_round :: "int \<Rightarrow> int" where
  "binary32_round n =
    (let u = binary32_ulp \<bar>n\<bar>; q = n div u; r = n mod u in
     if 2 * r < u then q * u
     else if u < 2 * r then (q + 1) * u
     else if even q then q * u else (q + 1) * u)"

datatype float32 = Float32 (float32_value: int)

instantiation float32 :: "{zero, plus}"
begin
definition zero_float32 :: float32 where
  "zero_float32 = Float32 0"
definition plus_float32 :: "float32 \<Rightarrow> float32 \<Rightarrow> float32" where
  "plus_float32 a b = Float32 (binary32_round (float32_value a + float32_value b))"
instance ..
end


section \<open>Example windows\<close>

text \<open>One channel of \<open>4 \<times> 4\<close> samples under a \<open>2 \<times> 2\<close> kernel, unit stride, no padding.\<close>

definition window_4x4_k2 :: window where
  "window_4x4_k2 = \<lparr>channels = 1, height = 4, width = 4, kernel_h = 2, kernel_w = 2,
     dilation_h = 1, dilation_w = 1, pad_t = 0, pad_l = 0, pad_b = 0, pad_r = 0,
     stride_h = 1, stride_w = 1\<rparr>"

text \<open>Three channels of \<open>7 \<times> 5\<close> samples, a \<open>3 \<times> 2\<close> kernel, stride 2, padding on every side.\<close>

definition window_7x5_k3x2_s2 :: window where
  "window_7x5_k3x2_s2 = \<lparr>channels = 3, height = 7, width = 5, kernel_h = 3, kernel_w = 2,
     dilation_h = 1, dilation_w = 1, pad_t = 1, pad_l = 1, pad_b = 1, pad_r = 0,
     stride_h = 2, stride_w = 2\<rparr>"

text \<open>
  Two channels of \<open>4 \<times> 1\<close> samples under a kernel of height 5 with stride 2: the kernel is
  taller than the image, and the truncating division still yields one output row.
\<close>

definition window_4x1_k5_s2 :: window where
  "window_4x1_k5_s2 = \<lparr>channels = 2, height = 4, width = 1, kernel_h = 5, kernel_w = 1,
     dilation_h = 1, dilation_w = 1, pad_t = 0, pad_l = 0, pad_b = 0, pad_r = 0,
     stride_h = 2, stride_w = 1\<rparr>"



text \<open>Column \<open>j\<close> of a row-major matrix with \<open>rows \<times> cols\<close> entries.\<close>

definition matrix_column :: "nat \<Rightarrow> nat \<Rightarrow> nat \<Rightarrow> 'a list \<Rightarrow> 'a list" where
  "matrix_column rows cols j m = map (\<lambda>r. m ! (r * cols + j)) [0..<rows]"


section \<open>Specification vocabulary\<close>

text \<open>
  What follows is not code of the source: these are the notions in which the properties
  of the transforms are stated and proved.
\<close>

subsection \<open>Valid windows and buffer sizes\<close>

text \<open>
  A valid window descriptor: no value is negative; kernel, stride and dilation are at
  least 1; the output size, as the source computes it, is at least 1 on both axes.
\<close>

definition valid_window :: "window \<Rightarrow> bool" where
  "valid_window d \<longleftrightarrow>
     0 \<le> channels d \<and> 0 \<le> height d \<and> 0 \<le> width d \<and>
     1 \<le> kernel_h d \<and> 1 \<le> kernel_w d \<and> 1 \<le> dilation_h d \<and> 1 \<le> dilation_w d \<and>
     0 \<le> pad_t d \<and> 0 \<le> pad_l d \<and> 0 \<le> pad_b d \<and> 0 \<le> pad_r d \<and>
     1 \<le> stride_h d \<and> 1 \<le> stride_w d \<and> 1 \<le> output_h d \<and> 1 \<le> output_w d"

text \<open>The dilated kernel is no larger than the padded input.\<close>

definition kernel_fits :: "window \<Rightarrow> bool" where
  "kernel_fits d \<longleftrightarrow>
     dkernel_h d \<le> height d + pad_t d + pad_b d \<and> dkernel_w d \<le> width d + pad_l d + pad_r d"

text \<open>The number of elements of the signal buffer and of the column buffer.\<close>

definition im_size :: "window \<Rightarrow> int" where
  "im_size d = channels d * height d * width d"

definition col_size :: "window \<Rightarrow> int" where
  "col_size d = channels d * kernel_h d * kernel_w d * output_h d * output_w d"

subsection \<open>Coordinates\<close>

text \<open>The input coordinate that output position \<open>y\<close>, \<open>x\<close> and kernel offset \<open>kr\<close>, \<open>kc\<close> map to.\<close>

definition input_row :: "window \<Rightarrow> int \<Rightarrow> int \<Rightarrow> int" where
  "input_row d y kr = y * stride_h d - pad_t d + kr * dilation_h d"

definition input_col :: "window \<Rightarrow> int \<Rightarrow> int \<Rightarrow> int" where
  "input_col d x kc = x * stride_w d - pad_l d + kc * dilation_w d"

definition in_image :: "window \<Rightarrow> int \<Rightarrow> int \<Rightarrow> bool" where
  "in_image d r q \<longleftrightarrow> 0 \<le> r \<and> r < height d \<and> 0 \<le> q \<and> q < width d"

text \<open>
  The coordinates that the equal-padding scan compares through
  \<open>is_a_ge_zero_and_a_lt_b\<close> are values of type \<open>int\<close>: the image extents, the first
  coordinate of a scan and the coordinate that the last increment of a scan reaches.
\<close>

definition scan_in_int32 :: "window \<Rightarrow> bool" where
  "scan_in_int32 d \<longleftrightarrow>
     int32 (height d) \<and> int32 (width d) \<and> int32 (- pad_t d) \<and> int32 (- pad_l d) \<and>
     int32 (input_row d (output_h d) (kernel_h d - 1)) \<and>
     int32 (input_col d (output_w d) (kernel_w d - 1))"

text \<open>Flat indices, channel-major: channel, row, column of the image; channel, kernel
  row, kernel column, output row, output column of the column buffer.\<close>

definition im_index_nchw :: "window \<Rightarrow> int \<Rightarrow> int \<Rightarrow> int \<Rightarrow> int" where
  "im_index_nchw d c r q = (c * height d + r) * width d + q"

definition col_index_nchw :: "window \<Rightarrow> int \<Rightarrow> int \<Rightarrow> int \<Rightarrow> int \<Rightarrow> int \<Rightarrow> int" where
  "col_index_nchw d c kr kc y x =
     (((c * kernel_h d + kr) * kernel_w d + kc) * output_h d + y) * output_w d + x"

subsection \<open>The transforms, entry by entry\<close>

text \<open>\<open>steps f a b s\<close> applies \<open>f a\<close>, \<open>f (a + 1)\<close>, \<dots>, \<open>f (b - 1)\<close> to \<open>s\<close>, in this order.\<close>

definition steps :: "(int \<Rightarrow> 's \<Rightarrow> 's) \<Rightarrow> int \<Rightarrow> int \<Rightarrow> 's \<Rightarrow> 's" where
  "steps f a b s = fold f [a..b - 1] s"

text \<open>
  The image index that entry \<open>j\<close> of the channel-major column buffer is taken from, or
  \<open>None\<close> where the entry falls into the padding.
\<close>

definition nchw_tap :: "window \<Rightarrow> int \<Rightarrow> int option" where
  "nchw_tap d j =
     (let x = j mod output_w d;
          y = (j div output_w d) mod output_h d;
          k = j div output_w d div output_h d;
          kc = k mod kernel_w d;
          kr = (k div kernel_w d) mod kernel_h d;
          c = k div kernel_w d div kernel_h d
      in if in_image d (input_row d y kr) (input_col d x kc)
         then Some (im_index_nchw d c (input_row d y kr) (input_col d x kc)) else None)"

text \<open>Entry \<open>j\<close> of the forward transform, and of the inverse transform.\<close>

definition nchw_gather :: "window \<Rightarrow> 'a::zero list \<Rightarrow> int \<Rightarrow> 'a list \<Rightarrow> 'a list" where
  "nchw_gather d im j col =
     col[nat j := (case nchw_tap d j of None \<Rightarrow> 0 | Some i \<Rightarrow> im ! nat i)]"

definition nchw_scatter :: "window \<Rightarrow> 'a::plus list \<Rightarrow> int \<Rightarrow> 'a list \<Rightarrow> 'a list" where
  "nchw_scatter d col j im =
     (case nchw_tap d j of None \<Rightarrow> im | Some i \<Rightarrow> im[nat i := im ! nat i + col ! nat j])"

text \<open>The same for the channel-minor layout: row, column, channel of the image; output row,
  output column, kernel row, kernel column, channel of the column buffer.\<close>

definition im_index_nhwc :: "window \<Rightarrow> int \<Rightarrow> int \<Rightarrow> int \<Rightarrow> int" where
  "im_index_nhwc d r q c = (r * width d + q) * channels d + c"


definition nhwc_tap :: "window \<Rightarrow> int \<Rightarrow> int option" where
  "nhwc_tap d j =
     (let c = j mod channels d;
          t = j div channels d;
          kc = t mod kernel_w d;
          kr = (t div kernel_w d) mod kernel_h d;
          x = (t div kernel_w d div kernel_h d) mod output_w d;
          y = t div kernel_w d div kernel_h d div output_w d
      in if in_image d (input_row d y kr) (input_col d x kc)
         then Some (im_index_nhwc d (input_row d y kr) (input_col d x kc) c) else None)"

definition nhwc_gather :: "window \<Rightarrow> 'a::zero list \<Rightarrow> int \<Rightarrow> 'a list \<Rightarrow> 'a list" where
  "nhwc_gather d im j col =
     col[nat j := (case nhwc_tap d j of None \<Rightarrow> 0 | Some i \<Rightarrow> im ! nat i)]"

definition nhwc_scatter :: "window \<Rightarrow> 'a::plus list \<Rightarrow> int \<Rightarrow> 'a list \<Rightarrow> 'a list" where
  "nhwc_scatter d col j im =
     (case nhwc_tap d j of None \<Rightarrow> im | Some i \<Rightarrow> im[nat i := im ! nat i + col ! nat j])"


section \<open>The bounds-check primitive\<close>

lemma uint_static_cast_nonneg:
  "0 \<le> a \<Longrightarrow> a < 2 ^ 31 \<Longrightarrow> uint (static_cast_unsigned a) = a"
  unfolding static_cast_unsigned_def
  by (simp add: uint_word_of_int take_bit_eq_mod)

lemma uint_static_cast_neg:
  assumes "- (2 ^ 31) \<le> a" "a < 0"
  shows "uint (static_cast_unsigned a) = a + 2 ^ 32"
proof -
  have "a mod 2 ^ 32 = (a + 2 ^ 32) mod 2 ^ 32" by simp
  also have "\<dots> = a + 2 ^ 32" using assms by (intro mod_pos_pos_trivial) simp_all
  finally show ?thesis
    unfolding static_cast_unsigned_def by (simp add: uint_word_of_int take_bit_eq_mod)
qed

lemma unsigned_compare_iff:
  "int32 a \<Longrightarrow> int32 b \<Longrightarrow> 0 \<le> b \<Longrightarrow> is_a_ge_zero_and_a_lt_b a b \<longleftrightarrow> 0 \<le> a \<and> a < b"
  unfolding is_a_ge_zero_and_a_lt_b_def int32_def word_less_def
  by (cases "0 \<le> a") (simp_all add: uint_static_cast_nonneg uint_static_cast_neg)

text \<open>
  C9. For 32-bit signed \<open>a\<close> and \<open>b\<close> with \<open>b > 0\<close>, the single unsigned comparison
  \<open>static_cast<unsigned>(a) < static_cast<unsigned>(b)\<close> holds exactly when \<open>0 \<le> a\<close> and
  \<open>a < b\<close>.
\<close>

theorem is_a_ge_zero_and_a_lt_b_correct:
  "int32 a \<Longrightarrow> int32 b \<Longrightarrow> 0 < b \<Longrightarrow> is_a_ge_zero_and_a_lt_b a b \<longleftrightarrow> 0 \<le> a \<and> a < b"
  by (rule unsigned_compare_iff) simp_all

theorem is_a_ge_zero_and_a_lt_b_correct_witness:
  "int32 (- 3) \<and> int32 7 \<and> (0::int) < 7 \<and> \<not> is_a_ge_zero_and_a_lt_b (- 3) 7 \<and>
   int32 6 \<and> is_a_ge_zero_and_a_lt_b 6 7"
  using is_a_ge_zero_and_a_lt_b_correct [of "- 3" 7] is_a_ge_zero_and_a_lt_b_correct [of 6 7]
  by (simp add: int32_def)


section \<open>Output size\<close>

lemma sdiv_nonneg: "0 \<le> a \<Longrightarrow> 0 \<le> b \<Longrightarrow> (a::int) sdiv b = a div b"
  by (cases "a = 0"; cases "b = 0") (simp_all add: signed_divide_int_def)

lemma smod_nonneg: "0 \<le> a \<Longrightarrow> 0 \<le> b \<Longrightarrow> (a::int) smod b = a mod b"
  by (cases "a = 0"; cases "b = 0") (simp_all add: signed_modulo_int_def)

lemma sdiv_add_stride: "0 \<le> n \<Longrightarrow> 1 \<le> s \<Longrightarrow> (n + s) sdiv s = n sdiv s + (1::int)"
  by (simp add: sdiv_nonneg div_add_self2)

lemma height_col_eq: "height_col d = output_h d"
  by (simp add: height_col_def output_h_def dkernel_h_def add.commute add.left_commute)

lemma width_col_eq: "width_col d = output_w d"
  by (simp add: width_col_def output_w_def dkernel_w_def)

text \<open>
  C7, as the code has it. The division is the truncating one of C++. When the dilated
  kernel fits into the padded input (and the stride is positive), the output size is
  \<open>floor ((input + pad_low + pad_high - effective_kernel) / stride) + 1\<close> on each axis, in
  both ways the source writes it; it is 1 when the dilated kernel fits exactly; and it
  grows by exactly 1 when the input grows by the stride.
\<close>

theorem output_size_when_kernel_fits:
  assumes "1 \<le> stride_h d" "1 \<le> stride_w d"
    and "dilation_h d * (kernel_h d - 1) + 1 \<le> height d + pad_t d + pad_b d"
    and "dilation_w d * (kernel_w d - 1) + 1 \<le> width d + pad_l d + pad_r d"
  shows "output_h d =
           (height d + pad_t d + pad_b d - (dilation_h d * (kernel_h d - 1) + 1)) div stride_h d + 1
       \<and> output_w d =
           (width d + pad_l d + pad_r d - (dilation_w d * (kernel_w d - 1) + 1)) div stride_w d + 1
       \<and> height_col d = output_h d \<and> width_col d = output_w d
       \<and> (height d + pad_t d + pad_b d = dilation_h d * (kernel_h d - 1) + 1 \<longrightarrow> output_h d = 1)
       \<and> (width d + pad_l d + pad_r d = dilation_w d * (kernel_w d - 1) + 1 \<longrightarrow> output_w d = 1)
       \<and> output_h (d\<lparr>height := height d + stride_h d\<rparr>) = output_h d + 1
       \<and> output_w (d\<lparr>width := width d + stride_w d\<rparr>) = output_w d + 1"
proof -
  have h: "output_h d =
      (height d + pad_t d + pad_b d - (dilation_h d * (kernel_h d - 1) + 1)) div stride_h d + 1"
    using assms(1,3) by (simp add: output_h_def sdiv_nonneg add.commute add.left_commute)
  have w: "output_w d =
      (width d + pad_l d + pad_r d - (dilation_w d * (kernel_w d - 1) + 1)) div stride_w d + 1"
    using assms(2,4) by (simp add: output_w_def sdiv_nonneg)
  have h1: "height d + pad_t d + pad_b d = dilation_h d * (kernel_h d - 1) + 1 \<longrightarrow> output_h d = 1"
    by (simp add: h)
  have w1: "width d + pad_l d + pad_r d = dilation_w d * (kernel_w d - 1) + 1 \<longrightarrow> output_w d = 1"
    by (simp add: w)
  define nh where "nh = height d + pad_b d + pad_t d - (dilation_h d * (kernel_h d - 1) + 1)"
  define nw where "nw = width d + pad_l d + pad_r d - (dilation_w d * (kernel_w d - 1) + 1)"
  have nn: "0 \<le> nh" "0 \<le> nw"
    using assms(3,4) by (simp_all add: nh_def nw_def)
  have "output_h (d\<lparr>height := height d + stride_h d\<rparr>) = (nh + stride_h d) sdiv stride_h d + 1"
    by (simp add: output_h_def nh_def algebra_simps)
  moreover have "output_h d = nh sdiv stride_h d + 1"
    by (simp add: output_h_def nh_def)
  ultimately have hs: "output_h (d\<lparr>height := height d + stride_h d\<rparr>) = output_h d + 1"
    using nn(1) assms(1) by (simp only: sdiv_add_stride)
  have "output_w (d\<lparr>width := width d + stride_w d\<rparr>) = (nw + stride_w d) sdiv stride_w d + 1"
    by (simp add: output_w_def nw_def algebra_simps)
  moreover have "output_w d = nw sdiv stride_w d + 1"
    by (simp add: output_w_def nw_def)
  ultimately have ws: "output_w (d\<lparr>width := width d + stride_w d\<rparr>) = output_w d + 1"
    using nn(2) assms(2) by (simp only: sdiv_add_stride)
  show ?thesis
    using h w h1 w1 hs ws height_col_eq width_col_eq by blast
qed

theorem output_size_when_kernel_fits_witness:
  "output_h window_7x5_k3x2_s2 = 4 \<and> output_w window_7x5_k3x2_s2 = 3
   \<and> height_col window_7x5_k3x2_s2 = 4 \<and> width_col window_7x5_k3x2_s2 = 3
   \<and> output_h (window_7x5_k3x2_s2\<lparr>height := 9\<rparr>) = 5
   \<and> output_w (window_7x5_k3x2_s2\<lparr>width := 7\<rparr>) = 4"
  using output_size_when_kernel_fits [of window_7x5_k3x2_s2]
  by (simp add: window_7x5_k3x2_s2_def)

text \<open>
  C7 as stated fails where the dilated kernel is larger than the padded input: with input
  size 4, kernel 5 and stride 2 the source computes \<open>(4 - 5) / 2 + 1 = 1\<close>, the floor
  formula gives 0, and two more input rows leave the output size at 1.
\<close>

theorem output_size_floor_counterexample:
  "output_h window_4x1_k5_s2 = 1
   \<and> (height window_4x1_k5_s2 + pad_t window_4x1_k5_s2 + pad_b window_4x1_k5_s2
        - (dilation_h window_4x1_k5_s2 * (kernel_h window_4x1_k5_s2 - 1) + 1))
       div stride_h window_4x1_k5_s2 + 1 = 0
   \<and> output_h (window_4x1_k5_s2\<lparr>height := height window_4x1_k5_s2 + stride_h window_4x1_k5_s2\<rparr>)
       = output_h window_4x1_k5_s2"
  by (simp add: window_4x1_k5_s2_def output_h_def signed_divide_int_def)


section \<open>Loops as runs of steps\<close>


text \<open>
  Every loop of the transforms visits the entries of the column buffer in the order of
  their flat index. A loop is therefore described by the run of steps it performs: if the
  \<open>j\<close>-th iteration of the body performs the steps of the \<open>j\<close>-th block of \<open>blk\<close> indices,
  the loop performs the steps of all blocks. The state of a loop may carry more than the
  buffer (a pointer, a running coordinate): \<open>st j t\<close> is the state before iteration \<open>j\<close>
  when the buffer is \<open>t\<close>.
\<close>

lemma steps_empty [simp]: "b \<le> a \<Longrightarrow> steps f a b s = s"
  by (simp add: steps_def)

lemma steps_split: "a \<le> m \<Longrightarrow> m \<le> b \<Longrightarrow> steps f a b s = steps f m b (steps f a m s)"
proof (cases "m = b")
  case True
  then show ?thesis by simp
next
  case False
  assume "a \<le> m" "m \<le> b"
  with False have "[a..b - 1] = [a..m - 1] @ [m..b - 1]"
    by (intro upto_split1) simp_all
  then show ?thesis by (simp add: steps_def)
qed

lemma steps_first: "a < b \<Longrightarrow> steps f a b s = steps f (a + 1) b (f a s)"
  by (simp add: steps_def upto_rec1)

lemma steps_one [simp]: "steps f a (a + 1) s = f a s"
  by (simp add: steps_def)

lemma steps_invariant:
  assumes "\<And>q t. a \<le> q \<Longrightarrow> q < b \<Longrightarrow> P t \<Longrightarrow> P (f q t)" and "P s"
  shows "P (steps f a b s)"
  using assms
proof (induction "nat (b - a)" arbitrary: a s)
  case 0
  then show ?case by simp
next
  case (Suc k)
  then have ab: "a < b" by simp
  have "P (steps f (a + 1) b (f a s))"
    using Suc.hyps(2) ab Suc.prems by (intro Suc.hyps(1)) simp_all
  then show ?case using ab by (simp add: steps_first)
qed

lemma steps_cong:
  assumes "\<And>q t. a \<le> q \<Longrightarrow> q < b \<Longrightarrow> P t \<Longrightarrow> f q t = g q t \<and> P (g q t)" and "P s"
  shows "steps f a b s = steps g a b s"
  using assms
proof (induction "nat (b - a)" arbitrary: a s)
  case 0
  then show ?case by simp
next
  case (Suc k)
  then have ab: "a < b" by simp
  have fg: "f a s = g a s" "P (g a s)" using Suc.prems ab by simp_all
  have "steps f (a + 1) b (g a s) = steps g (a + 1) b (g a s)"
    using Suc.hyps(2) ab Suc.prems(1) fg(2) by (intro Suc.hyps(1)) simp_all
  then show ?case using ab fg by (simp add: steps_first)
qed

lemma for_up_done [simp]: "n \<le> i \<Longrightarrow> for_up i n body s = Some s"
  by (subst for_up.simps) simp


lemma for_up_sim:
  fixes st :: "int \<Rightarrow> 'b \<Rightarrow> 's"
  assumes body: "\<And>j t. i \<le> j \<Longrightarrow> j < n \<Longrightarrow> P t \<Longrightarrow>
      body j (st j t) = Some (st (j + 1) (steps f (base + j * blk) (base + j * blk + blk) t))"
    and inv: "\<And>q t. P t \<Longrightarrow> P (f q t)"
    and "P t" "i \<le> n" "0 \<le> blk"
  shows "for_up i n body (st i t) = Some (st n (steps f (base + i * blk) (base + n * blk) t))"
  using assms(3,4) body
proof (induction "nat (n - i)" arbitrary: i t)
  case 0
  then show ?case by simp
next
  case (Suc k)
  then have lt: "i < n" by simp
  let ?t = "steps f (base + i * blk) (base + i * blk + blk) t"
  have Pt: "P ?t" using inv Suc.prems(1) by (intro steps_invariant[where P = P]) simp_all
  have b: "body i (st i t) = Some (st (i + 1) ?t)" using Suc.prems lt by simp
  have "for_up (i + 1) n body (st (i + 1) ?t)
    = Some (st n (steps f (base + (i + 1) * blk) (base + n * blk) ?t))"
    using Suc.hyps(2) lt Pt Suc.prems(3) by (intro Suc.hyps(1)) simp_all
  moreover have "steps f (base + i * blk) (base + n * blk) t
    = steps f (base + (i + 1) * blk) (base + n * blk) ?t"
  proof -
    have "i * blk + blk \<le> n * blk"
      using lt \<open>0 \<le> blk\<close> mult_right_mono[of "i + 1" n blk] by (simp add: algebra_simps)
    then show ?thesis
      using \<open>0 \<le> blk\<close> by (subst steps_split[where m = "base + i * blk + blk"]) (simp_all add: algebra_simps)
  qed
  ultimately show ?case using lt b by (subst for_up.simps) simp
qed

text \<open>The counting and the stepping loop return when they are started in their range,
  and are then a \<open>for_up\<close> loop.\<close>

lemma count_down_for_up_aux:
  "0 \<le> k \<Longrightarrow> count_down k body s = for_up (n - k) n (\<lambda>_. body) s"
proof (induction "nat k" arbitrary: k s)
  case 0
  then show ?case by (simp add: count_down.simps)
next
  case (Suc m)
  then have k: "0 < k" by simp
  have IH: "\<And>s'. count_down (k - 1) body s' = for_up (n - (k - 1)) n (\<lambda>_. body) s'"
    using Suc.hyps(2) k by (intro Suc.hyps(1)) simp_all
  show ?case
    using k by (subst count_down.simps, subst for_up.simps) (simp add: IH algebra_simps split: option.splits)
qed

lemma count_down_for_up: "0 \<le> n \<Longrightarrow> count_down n body s = for_up 0 n (\<lambda>_. body) s"
  using count_down_for_up_aux[of n body s n] by simp




section \<open>Im2col, channel-major: the baseline path\<close>


subsection \<open>Arithmetic of flat indices\<close>

lemma flat_nonneg: "0 \<le> a \<Longrightarrow> 0 \<le> B \<Longrightarrow> 0 \<le> b \<Longrightarrow> 0 \<le> a * B + (b::int)"
  by simp

lemma flat_less:
  assumes "a < A" "0 \<le> b" "b < B"
  shows "a * B + b < A * (B::int)"
proof -
  have "a * B + b < (a + 1) * B" using assms(3) by (simp add: algebra_simps)
  also have "\<dots> \<le> A * B" using assms by (intro mult_right_mono) simp_all
  finally show ?thesis .
qed



lemma div_less_of_less_mult:
  assumes "k < A * B" "0 < B"
  shows "k div B < (A::int)"
proof (rule ccontr)
  assume "\<not> k div B < A"
  then have "A * B \<le> (k div B) * B"
    using assms(2) by (intro mult_right_mono) simp_all
  moreover have "(k div B) * B \<le> k"
    using div_mult_mod_eq[of k B] pos_mod_sign[of B k] assms(2) by linarith
  ultimately show False using assms(1) by simp
qed

lemma div_nonneg: "0 \<le> k \<Longrightarrow> 0 < B \<Longrightarrow> 0 \<le> k div (B::int)"
  by (simp add: pos_imp_zdiv_nonneg_iff)

text \<open>The kernel index \<open>k\<close> of the channel-major column buffer: channel, kernel row, kernel column.\<close>

lemma kernel_index_split:
  assumes "0 \<le> k" "k < C * kh * kw" "0 < kh" "0 < kw"
  shows "0 \<le> k div kw div kh" "k div kw div kh < (C::int)"
    "0 \<le> (k div kw) mod kh" "(k div kw) mod kh < kh"
    "0 \<le> k mod kw" "k mod kw < kw"
proof -
  have "k div kw < C * kh" using assms by (intro div_less_of_less_mult) simp_all
  then show "k div kw div kh < C" using assms by (intro div_less_of_less_mult) simp_all
  show "0 \<le> k div kw div kh" using assms by (simp add: div_nonneg)
qed (use assms in simp_all)

lemma kernel_index_code:
  assumes "0 \<le> k" "0 < kh" "0 < kw"
  shows "k smod kw = k mod kw" "(k sdiv kw) smod kh = (k div kw) mod kh"
    "k sdiv kh sdiv kw = k div kw div (kh::int)"
proof -
  show "k smod kw = k mod kw" using assms by (simp add: smod_nonneg)
  have "0 \<le> k div kw" using assms by (simp add: div_nonneg)
  then show "(k sdiv kw) smod kh = (k div kw) mod kh"
    using assms by (simp add: sdiv_nonneg smod_nonneg)
  have "0 \<le> k div kh" using assms by (simp add: div_nonneg)
  then have "k sdiv kh sdiv kw = k div kh div kw"
    using assms by (simp add: sdiv_nonneg)
  also have "\<dots> = k div (kh * kw)" using assms by (simp add: zdiv_zmult2_eq)
  also have "\<dots> = k div (kw * kh)" by (simp add: mult.commute)
  also have "\<dots> = k div kw div kh" using assms by (simp add: zdiv_zmult2_eq)
  finally show "k sdiv kh sdiv kw = k div kw div kh" .
qed

subsection \<open>Indices and bounds\<close>

lemma nchw_tap_flat:
  assumes "0 \<le> y" "y < output_h d" "0 \<le> x" "x < output_w d"
  shows "nchw_tap d ((k * output_h d + y) * output_w d + x) =
     (if in_image d (input_row d y ((k div kernel_w d) mod kernel_h d)) (input_col d x (k mod kernel_w d))
      then Some (im_index_nchw d (k div kernel_w d div kernel_h d)
                  (input_row d y ((k div kernel_w d) mod kernel_h d)) (input_col d x (k mod kernel_w d)))
      else None)"
  using assms by (simp add: nchw_tap_def Let_def)

lemma im_index_nchw_bounds:
  assumes "0 \<le> c" "c < channels d" "in_image d r q"
  shows "0 \<le> im_index_nchw d c r q" "im_index_nchw d c r q < im_size d"
proof -
  have r: "0 \<le> r" "r < height d" "0 \<le> q" "q < width d"
    using assms(3) by (simp_all add: in_image_def)
  show "0 \<le> im_index_nchw d c r q"
    using assms r by (simp add: im_index_nchw_def)
  have "c * height d + r < channels d * height d"
    using assms(2) r(1,2) by (rule flat_less)
  then show "im_index_nchw d c r q < im_size d"
    unfolding im_index_nchw_def im_size_def using r(3,4) by (rule flat_less)
qed

lemma col_flat_bounds:
  assumes "0 \<le> k" "k < channels d * kernel_h d * kernel_w d"
    "0 \<le> y" "y < output_h d" "0 \<le> x" "x < output_w d"
  shows "0 \<le> (k * output_h d + y) * output_w d + x"
    "(k * output_h d + y) * output_w d + x < col_size d"
proof -
  show "0 \<le> (k * output_h d + y) * output_w d + x" using assms by simp
  have "k * output_h d + y < channels d * kernel_h d * kernel_w d * output_h d"
    using assms(2,3,4) by (rule flat_less)
  then show "(k * output_h d + y) * output_w d + x < col_size d"
    unfolding col_size_def using assms(5,6) by (rule flat_less)
qed

lemma load_in: "0 \<le> i \<Longrightarrow> i < int (length b) \<Longrightarrow> load b i = Some (b ! nat i)"
  by (simp add: load_def in_buf_def)

lemma store_in: "0 \<le> i \<Longrightarrow> i < int (length b) \<Longrightarrow> store b i v = Some (b[nat i := v])"
  by (simp add: store_def in_buf_def)

subsection \<open>The loops\<close>

text \<open>The baseline path writes entry \<open>j\<close> of the column buffer in step \<open>j\<close>: it performs
  \<open>nchw_gather\<close> at \<open>0, \<dots>, col_size - 1\<close>.\<close>

lemma im2col_baseline_entry_alt:
  "im2col_baseline_entry d im c h w col =
     (let kc = c smod kernel_w d;
          kr = (c sdiv kernel_w d) smod kernel_h d;
          ci = c sdiv kernel_h d sdiv kernel_w d
      in if in_image d (input_row d h kr) (input_col d w kc)
         then do { v \<leftarrow> load im (im_index_nchw d ci (input_row d h kr) (input_col d w kc));
                   store col ((c * height_col d + h) * width_col d + w) v }
         else store col ((c * height_col d + h) * width_col d + w) 0)"
  by (simp add: im2col_baseline_entry_def in_image_def input_row_def input_col_def
      im_index_nchw_def Let_def)

lemma im2col_baseline_entry_gather:
  assumes v: "valid_window d"
    and k: "0 \<le> k" "k < channels d * kernel_h d * kernel_w d"
    and y: "0 \<le> y" "y < output_h d" and x: "0 \<le> x" "x < output_w d"
    and im: "int (length im) = im_size d" and col: "int (length col) = col_size d"
  shows "im2col_baseline_entry d im k y x col
    = Some (nchw_gather d im ((k * output_h d + y) * output_w d + x) col)"
proof -
  have kk: "0 < kernel_h d" "0 < kernel_w d" using v by (simp_all add: valid_window_def)
  note code = kernel_index_code[OF k(1) kk]
  note split = kernel_index_split[OF k kk]
  note jb = col_flat_bounds[OF k y x]
  let ?r = "input_row d y ((k div kernel_w d) mod kernel_h d)"
  let ?q = "input_col d x (k mod kernel_w d)"
  show ?thesis
  proof (cases "in_image d ?r ?q")
    case True
    note ib = im_index_nchw_bounds[OF split(1,2) True]
    show ?thesis
      using jb ib im col y x True
      by (simp add: im2col_baseline_entry_alt nchw_gather_def nchw_tap_flat code
          height_col_eq width_col_eq load_in store_in)
  next
    case False
    show ?thesis
      using jb col y x False
      by (simp add: im2col_baseline_entry_alt nchw_gather_def nchw_tap_flat code
          height_col_eq width_col_eq store_in)
  qed
qed

lemma for_up_steps:
  assumes "\<And>j t. 0 \<le> j \<Longrightarrow> j < n \<Longrightarrow> P t \<Longrightarrow>
      body j t = Some (steps f (base + j * blk) (base + j * blk + blk) t)"
    and "\<And>q t. P t \<Longrightarrow> P (f q t)"
    and "P t" "0 \<le> n" "0 \<le> blk"
  shows "for_up 0 n body t = Some (steps f base (base + n * blk) t)"
  using for_up_sim[where st = "\<lambda>_ t. t" and i = 0 and n = n and P = P and body = body
      and f = f and base = base and blk = blk and t = t] assms
  by simp

lemma length_nchw_gather [simp]: "length (nchw_gather d im j col) = length col"
  by (simp add: nchw_gather_def)

lemma length_nchw_scatter [simp]: "length (nchw_scatter d col j im) = length im"
  by (simp add: nchw_scatter_def split: option.splits)

lemma valid_window_output: "valid_window d \<Longrightarrow> 0 \<le> output_h d \<and> 0 \<le> output_w d"
  by (simp add: valid_window_def)

lemma im2col_baseline_row:
  fixes im :: "'a::zero list"
  assumes v: "valid_window d"
    and k: "0 \<le> k" "k < channels d * kernel_h d * kernel_w d"
    and y: "0 \<le> y" "y < output_h d"
    and im: "int (length im) = im_size d" and col: "int (length col) = col_size d"
  shows "for_up 0 (width_col d) (\<lambda>w. im2col_baseline_entry d im k y w) col
    = Some (steps (nchw_gather d im) (k * (output_h d * output_w d) + y * output_w d)
        (k * (output_h d * output_w d) + y * output_w d + output_w d) col)"
proof -
  have b: "k * (output_h d * output_w d) + y * output_w d = (k * output_h d + y) * output_w d"
    by (simp add: algebra_simps)
  have "for_up 0 (output_w d) (\<lambda>w. im2col_baseline_entry d im k y w) col
    = Some (steps (nchw_gather d im) ((k * output_h d + y) * output_w d)
        ((k * output_h d + y) * output_w d + output_w d * 1) col)"
  proof (rule for_up_steps[where P = "\<lambda>t. int (length t) = col_size d"])
    fix j and t :: "'a list" assume "0 \<le> j" "j < output_w d" "int (length t) = col_size d"
    then show "im2col_baseline_entry d im k y j t
      = Some (steps (nchw_gather d im) ((k * output_h d + y) * output_w d + j * 1)
          ((k * output_h d + y) * output_w d + j * 1 + 1) t)"
      using im2col_baseline_entry_gather[OF v k y _ _ im] by simp
  qed (use v col in \<open>simp_all add: valid_window_def\<close>)
  then show ?thesis by (simp add: width_col_eq b)
qed

lemma im2col_baseline_plane:
  fixes im :: "'a::zero list"
  assumes v: "valid_window d"
    and k: "0 \<le> k" "k < channels d * kernel_h d * kernel_w d"
    and im: "int (length im) = im_size d" and col: "int (length col) = col_size d"
  shows "for_up 0 (height_col d) (\<lambda>h. for_up 0 (width_col d) (\<lambda>w. im2col_baseline_entry d im k h w)) col
    = Some (steps (nchw_gather d im) (k * (output_h d * output_w d))
        (k * (output_h d * output_w d) + output_h d * output_w d) col)"
  unfolding height_col_eq
proof (rule for_up_steps[where P = "\<lambda>t. int (length t) = col_size d"])
  fix j and t :: "'a list" assume "0 \<le> j" "j < output_h d" "int (length t) = col_size d"
  then show "for_up 0 (width_col d) (\<lambda>w. im2col_baseline_entry d im k j w) t
    = Some (steps (nchw_gather d im) (k * (output_h d * output_w d) + j * output_w d)
        (k * (output_h d * output_w d) + j * output_w d + output_w d) t)"
    by (rule im2col_baseline_row[OF v k _ _ im])
qed (use v col in \<open>simp_all add: valid_window_def\<close>)

lemma Im2col_baseline_steps:
  fixes im :: "'a::zero list"
  assumes v: "valid_window d"
    and im: "int (length im) = im_size d" and col: "int (length col) = col_size d"
  shows "Im2col_baseline d im col = Some (steps (nchw_gather d im) 0 (col_size d) col)"
proof -
  have "for_up 0 (channels d * kernel_h d * kernel_w d)
      (\<lambda>c. for_up 0 (height_col d) (\<lambda>h. for_up 0 (width_col d) (\<lambda>w. im2col_baseline_entry d im c h w))) col
    = Some (steps (nchw_gather d im) 0
        (0 + channels d * kernel_h d * kernel_w d * (output_h d * output_w d)) col)"
  proof (rule for_up_steps[where P = "\<lambda>t. int (length t) = col_size d"])
    fix j and t :: "'a list" assume "0 \<le> j" "j < channels d * kernel_h d * kernel_w d" "int (length t) = col_size d"
    then show "for_up 0 (height_col d) (\<lambda>h. for_up 0 (width_col d) (\<lambda>w. im2col_baseline_entry d im j h w)) t
      = Some (steps (nchw_gather d im) (0 + j * (output_h d * output_w d))
          (0 + j * (output_h d * output_w d) + output_h d * output_w d) t)"
      using im2col_baseline_plane[OF v _ _ im] by simp
  qed (use v col in \<open>simp_all add: valid_window_def\<close>)
  then show ?thesis by (simp add: Im2col_baseline_def col_size_def algebra_simps)
qed


section \<open>Im2col, channel-major: the equal-padding scan\<close>


text \<open>
  The scan compares its coordinates through \<open>is_a_ge_zero_and_a_lt_b\<close>; as long as they
  are values of type \<open>int\<close> the comparison is the range test. The scan then performs the
  same steps as the baseline path.
\<close>

lemma count_down_sim:
  fixes st :: "int \<Rightarrow> 'b \<Rightarrow> 's"
  assumes "\<And>j t. 0 \<le> j \<Longrightarrow> j < n \<Longrightarrow> P t \<Longrightarrow>
      body (st j t) = Some (st (j + 1) (steps f (base + j * blk) (base + j * blk + blk) t))"
    and "\<And>q t. P t \<Longrightarrow> P (f q t)"
    and "P t" "0 \<le> n" "0 \<le> blk"
  shows "count_down n body (st 0 t) = Some (st n (steps f base (base + n * blk) t))"
  using for_up_sim[where st = st and i = 0 and n = n and P = P and body = "\<lambda>_. body"
      and f = f and base = base and blk = blk and t = t] assms
  by (simp add: count_down_for_up)

lemma int32_between: "int32 lo \<Longrightarrow> int32 hi \<Longrightarrow> lo \<le> a \<Longrightarrow> a \<le> hi \<Longrightarrow> int32 a"
  by (simp add: int32_def)

lemma scan_row_int32:
  assumes v: "valid_window d" and s: "scan_in_int32 d"
    and "0 \<le> y" "y < output_h d" "0 \<le> kr" "kr < kernel_h d"
  shows "int32 (input_row d y kr)"
proof -
  have "y * stride_h d \<le> output_h d * stride_h d"
    using assms v by (intro mult_right_mono) (simp_all add: valid_window_def)
  moreover have "kr * dilation_h d \<le> (kernel_h d - 1) * dilation_h d"
    using assms v by (intro mult_right_mono) (simp_all add: valid_window_def)
  moreover have "0 \<le> y * stride_h d" "0 \<le> kr * dilation_h d"
    using assms v by (simp_all add: valid_window_def)
  ultimately have "- pad_t d \<le> input_row d y kr"
    "input_row d y kr \<le> input_row d (output_h d) (kernel_h d - 1)"
    by (simp_all add: input_row_def)
  then show ?thesis using s int32_between unfolding scan_in_int32_def by blast
qed

lemma scan_col_int32:
  assumes v: "valid_window d" and s: "scan_in_int32 d"
    and "0 \<le> x" "x < output_w d" "0 \<le> kc" "kc < kernel_w d"
  shows "int32 (input_col d x kc)"
proof -
  have "x * stride_w d \<le> output_w d * stride_w d"
    using assms v by (intro mult_right_mono) (simp_all add: valid_window_def)
  moreover have "kc * dilation_w d \<le> (kernel_w d - 1) * dilation_w d"
    using assms v by (intro mult_right_mono) (simp_all add: valid_window_def)
  moreover have "0 \<le> x * stride_w d" "0 \<le> kc * dilation_w d"
    using assms v by (simp_all add: valid_window_def)
  ultimately have "- pad_l d \<le> input_col d x kc"
    "input_col d x kc \<le> input_col d (output_w d) (kernel_w d - 1)"
    by (simp_all add: input_col_def)
  then show ?thesis using s int32_between unfolding scan_in_int32_def by blast
qed

lemma scan_row_test:
  assumes v: "valid_window d" and s: "scan_in_int32 d"
    and "0 \<le> y" "y < output_h d" "0 \<le> kr" "kr < kernel_h d"
  shows "is_a_ge_zero_and_a_lt_b (input_row d y kr) (height d)
    \<longleftrightarrow> 0 \<le> input_row d y kr \<and> input_row d y kr < height d"
  using scan_row_int32[OF assms] v s
  by (intro unsigned_compare_iff) (simp_all add: scan_in_int32_def valid_window_def)

lemma scan_col_test:
  assumes v: "valid_window d" and s: "scan_in_int32 d"
    and "0 \<le> x" "x < output_w d" "0 \<le> kc" "kc < kernel_w d"
  shows "is_a_ge_zero_and_a_lt_b (input_col d x kc) (width d)
    \<longleftrightarrow> 0 \<le> input_col d x kc \<and> input_col d x kc < width d"
  using scan_col_int32[OF assms] v s
  by (intro unsigned_compare_iff) (simp_all add: scan_in_int32_def valid_window_def)

lemma nchw_tap_col_index:
  assumes v: "valid_window d"
    and "0 \<le> kr" "kr < kernel_h d" "0 \<le> kc" "kc < kernel_w d"
    and "0 \<le> y" "y < output_h d" "0 \<le> x" "x < output_w d"
  shows "nchw_tap d (col_index_nchw d c kr kc y x) =
     (if in_image d (input_row d y kr) (input_col d x kc)
      then Some (im_index_nchw d c (input_row d y kr) (input_col d x kc)) else None)"
  using assms by (simp add: col_index_nchw_def nchw_tap_flat)

lemma col_index_nchw_bounds:
  assumes "0 \<le> c" "c < channels d" "0 \<le> kr" "kr < kernel_h d" "0 \<le> kc" "kc < kernel_w d"
    and "0 \<le> y" "y < output_h d" "0 \<le> x" "x < output_w d"
  shows "0 \<le> col_index_nchw d c kr kc y x" "col_index_nchw d c kr kc y x < col_size d"
proof -
  have "c * kernel_h d + kr < channels d * kernel_h d"
    using assms(2,3,4) by (rule flat_less)
  then have k: "(c * kernel_h d + kr) * kernel_w d + kc < channels d * kernel_h d * kernel_w d"
    using assms(5,6) by (rule flat_less)
  have k0: "0 \<le> (c * kernel_h d + kr) * kernel_w d + kc" using assms by simp
  show "0 \<le> col_index_nchw d c kr kc y x" "col_index_nchw d c kr kc y x < col_size d"
    unfolding col_index_nchw_def using col_flat_bounds[OF k0 k assms(7-10)] by simp_all
qed


lemma col_index_nchw_x: "col_index_nchw d c kr kc y x = col_index_nchw d c kr kc y 0 + x"
  by (simp add: col_index_nchw_def)

lemma col_index_nchw_y:
  "col_index_nchw d c kr kc y 0 = col_index_nchw d c kr kc 0 0 + y * output_w d"
  by (simp add: col_index_nchw_def algebra_simps)

lemma col_index_nchw_kc:
  "col_index_nchw d c kr kc 0 0 = col_index_nchw d c kr 0 0 0 + kc * (output_h d * output_w d)"
  by (simp add: col_index_nchw_def algebra_simps)

lemma col_index_nchw_kr:
  "col_index_nchw d c kr 0 0 0
     = col_index_nchw d c 0 0 0 0 + kr * (kernel_w d * (output_h d * output_w d))"
  by (simp add: col_index_nchw_def algebra_simps)

lemma col_index_nchw_c:
  "col_index_nchw d c 0 0 0 0 = c * (kernel_h d * (kernel_w d * (output_h d * output_w d)))"
  by (simp add: col_index_nchw_def algebra_simps)

lemma im_index_nchw_offset:
  "c * (height d * width d) + (r * width d + q) = im_index_nchw d c r q"
  by (simp add: im_index_nchw_def algebra_simps)

lemma input_row_step: "- pad_t d + kr * dilation_h d + y * stride_h d = input_row d y kr"
  by (simp add: input_row_def)

lemma input_col_step: "- pad_l d + kc * dilation_w d + x * stride_w d = input_col d x kc"
  by (simp add: input_col_def)

lemma input_row_0: "- pad_t d + kr * dilation_h d = input_row d 0 kr"
  by (simp add: input_row_def)

lemma input_col_0: "- pad_l d + kc * dilation_w d = input_col d 0 kc"
  by (simp add: input_col_def)

lemma input_row_Suc: "input_row d (y + 1) kr = input_row d y kr + stride_h d"
  by (simp add: input_row_def algebra_simps)

lemma input_col_Suc: "input_col d (x + 1) kc = input_col d x kc + stride_w d"
  by (simp add: input_col_def algebra_simps)

lemma im2col_scan_zero_row_steps:
  fixes im :: "'a::zero list"
  assumes v: "valid_window d"
    and c: "0 \<le> c" "c < channels d" and kr: "0 \<le> kr" "kr < kernel_h d"
    and kc: "0 \<le> kc" "kc < kernel_w d" and y: "0 \<le> y" "y < output_h d"
    and out: "\<not> (0 \<le> input_row d y kr \<and> input_row d y kr < height d)"
    and col: "int (length col) = col_size d"
  shows "im2col_scan_zero_row d (col_index_nchw d c kr kc y 0, col)
    = Some (col_index_nchw d c kr kc y 0 + output_w d,
        steps (nchw_gather d im) (col_index_nchw d c kr kc y 0)
          (col_index_nchw d c kr kc y 0 + output_w d) col)"
proof -
  let ?p = "col_index_nchw d c kr kc y 0"
  have "count_down (output_w d)
      (\<lambda>(data_col, col). do { col' \<leftarrow> store col data_col 0; Some (data_col + 1, col') })
      (?p + 0, col)
    = Some (?p + output_w d, steps (nchw_gather d im) ?p (?p + output_w d * 1) col)"
  proof (rule count_down_sim[where st = "\<lambda>j t. (?p + j, t)"
        and P = "\<lambda>t. int (length t) = col_size d"])
    fix j and t :: "'a list"
    assume j: "0 \<le> j" "j < output_w d" and t: "int (length t) = col_size d"
    have "\<not> in_image d (input_row d y kr) (input_col d j kc)"
      using out by (auto simp: in_image_def)
    then have tap: "nchw_tap d (?p + j) = None"
      using nchw_tap_col_index[OF v kr kc y j, of c]
      by (simp add: col_index_nchw_x[symmetric])
    have b: "0 \<le> ?p + j" "?p + j < col_size d"
      using col_index_nchw_bounds[OF c kr kc y j] by (simp_all add: col_index_nchw_x[symmetric])
    show "(case (?p + j, t) of (data_col, col) \<Rightarrow>
            do { col' \<leftarrow> store col data_col 0; Some (data_col + 1, col') })
      = Some (?p + (j + 1), steps (nchw_gather d im) (?p + j * 1) (?p + j * 1 + 1) t)"
      using b t by (simp add: store_in nchw_gather_def tap)
  qed (use v col in \<open>simp_all add: valid_window_def\<close>)
  then show ?thesis by (simp add: im2col_scan_zero_row_def)
qed

lemma im2col_scan_copy_row_steps:
  fixes im :: "'a::zero list"
  assumes v: "valid_window d" and s: "scan_in_int32 d"
    and c: "0 \<le> c" "c < channels d" and kr: "0 \<le> kr" "kr < kernel_h d"
    and kc: "0 \<le> kc" "kc < kernel_w d" and y: "0 \<le> y" "y < output_h d"
    and row: "0 \<le> input_row d y kr" "input_row d y kr < height d"
    and im: "int (length im) = im_size d" and col: "int (length col) = col_size d"
  shows "im2col_scan_copy_row d im (c * (height d * width d)) (input_row d y kr) kc
      (col_index_nchw d c kr kc y 0, col)
    = Some (col_index_nchw d c kr kc y 0 + output_w d,
        steps (nchw_gather d im) (col_index_nchw d c kr kc y 0)
          (col_index_nchw d c kr kc y 0 + output_w d) col)"
proof -
  let ?p = "col_index_nchw d c kr kc y 0"
  let ?body = "\<lambda>(input_col, data_col, col). do {
         col' \<leftarrow> (if is_a_ge_zero_and_a_lt_b input_col (width d)
                  then do { v \<leftarrow> load im (c * (height d * width d) + (input_row d y kr * width d + input_col));
                            store col data_col v }
                  else store col data_col 0);
         Some (input_col + stride_w d, data_col + 1, col') }"
  have "count_down (output_w d) ?body (input_col d 0 kc, ?p + 0, col)
    = Some (input_col d (output_w d) kc, ?p + output_w d,
        steps (nchw_gather d im) ?p (?p + output_w d * 1) col)"
  proof (rule count_down_sim[where st = "\<lambda>j t. (input_col d j kc, ?p + j, t)"
        and P = "\<lambda>t. int (length t) = col_size d"])
    fix j and t :: "'a list"
    assume j: "0 \<le> j" "j < output_w d" and t: "int (length t) = col_size d"
    note tap = nchw_tap_col_index[OF v kr kc y j, of c]
    have b: "0 \<le> ?p + j" "?p + j < col_size d"
      using col_index_nchw_bounds[OF c kr kc y j] by (simp_all add: col_index_nchw_x[symmetric])
    note test = scan_col_test[OF v s j kc]
    show "?body (input_col d j kc, ?p + j, t)
      = Some (input_col d (j + 1) kc, ?p + (j + 1),
          steps (nchw_gather d im) (?p + j * 1) (?p + j * 1 + 1) t)"
    proof (cases "0 \<le> input_col d j kc \<and> input_col d j kc < width d")
      case True
      then have ii: "in_image d (input_row d y kr) (input_col d j kc)"
        using row by (simp add: in_image_def)
      note ib = im_index_nchw_bounds[OF c ii]
      have tap': "nchw_tap d (?p + j)
        = Some (im_index_nchw d c (input_row d y kr) (input_col d j kc))"
        using tap ii by (simp add: col_index_nchw_x[symmetric])
      have test': "is_a_ge_zero_and_a_lt_b (input_col d j kc) (width d)"
        using test True by blast
      show ?thesis
        using b t ib im
        by (simp add: test' input_col_Suc im_index_nchw_offset load_in store_in
            nchw_gather_def tap')
    next
      case False
      then have ii: "\<not> in_image d (input_row d y kr) (input_col d j kc)"
        by (auto simp: in_image_def)
      have tap': "nchw_tap d (?p + j) = None"
        using tap ii by (simp add: col_index_nchw_x[symmetric])
      have test': "\<not> is_a_ge_zero_and_a_lt_b (input_col d j kc) (width d)"
        using test False by blast
      show ?thesis
        using b t
        by (simp add: test' input_col_Suc store_in nchw_gather_def tap')
    qed
  qed (use v col in \<open>simp_all add: valid_window_def\<close>)
  then show ?thesis
    unfolding im2col_scan_copy_row_def input_col_0 by simp
qed


lemma im2col_scan_rows_steps:
  fixes im :: "'a::zero list"
  assumes v: "valid_window d" and s: "scan_in_int32 d"
    and c: "0 \<le> c" "c < channels d" and kr: "0 \<le> kr" "kr < kernel_h d"
    and kc: "0 \<le> kc" "kc < kernel_w d"
    and im: "int (length im) = im_size d" and col: "int (length col) = col_size d"
  shows "im2col_scan_rows d im (c * (height d * width d)) kr kc (col_index_nchw d c kr kc 0 0, col)
    = Some (col_index_nchw d c kr kc 0 0 + output_h d * output_w d,
        steps (nchw_gather d im) (col_index_nchw d c kr kc 0 0)
          (col_index_nchw d c kr kc 0 0 + output_h d * output_w d) col)"
proof -
  let ?p = "col_index_nchw d c kr kc 0 0"
  let ?im = "c * (height d * width d)"
  let ?body = "\<lambda>(input_row, data_col, col). do {
         (data_col', col') \<leftarrow>
           (if \<not> is_a_ge_zero_and_a_lt_b input_row (height d)
            then im2col_scan_zero_row d (data_col, col)
            else im2col_scan_copy_row d im ?im input_row kc (data_col, col));
         Some (input_row + stride_h d, data_col', col') }"
  have "count_down (output_h d) ?body (input_row d 0 kr, ?p + 0 * output_w d, col)
    = Some (input_row d (output_h d) kr, ?p + output_h d * output_w d,
        steps (nchw_gather d im) ?p (?p + output_h d * output_w d) col)"
  proof (rule count_down_sim[where st = "\<lambda>j t. (input_row d j kr, ?p + j * output_w d, t)"
        and P = "\<lambda>t. int (length t) = col_size d"])
    fix j and t :: "'a list"
    assume j: "0 \<le> j" "j < output_h d" and t: "int (length t) = col_size d"
    note test = scan_row_test[OF v s j kr]
    have p: "?p + j * output_w d = col_index_nchw d c kr kc j 0"
      by (simp add: col_index_nchw_y[of d c kr kc j])
    have nxt: "?p + (j + 1) * output_w d = col_index_nchw d c kr kc j 0 + output_w d"
      by (simp add: col_index_nchw_y[of d c kr kc j] algebra_simps)
    show "?body (input_row d j kr, ?p + j * output_w d, t)
      = Some (input_row d (j + 1) kr, ?p + (j + 1) * output_w d,
          steps (nchw_gather d im) (?p + j * output_w d) (?p + j * output_w d + output_w d) t)"
    proof (cases "0 \<le> input_row d j kr \<and> input_row d j kr < height d")
      case True
      then have test': "is_a_ge_zero_and_a_lt_b (input_row d j kr) (height d)"
        using test by blast
      from True have row: "0 \<le> input_row d j kr" "input_row d j kr < height d" by simp_all
      show ?thesis
        unfolding p nxt
        by (simp add: test' input_row_Suc im2col_scan_copy_row_steps[OF v s c kr kc j row im t])
    next
      case False
      then have test': "\<not> is_a_ge_zero_and_a_lt_b (input_row d j kr) (height d)"
        using test by blast
      show ?thesis
        unfolding p nxt
        by (simp add: test' input_row_Suc
            im2col_scan_zero_row_steps[OF v c kr kc j False t, where im = im])
    qed
  qed (use v col in \<open>simp_all add: valid_window_def\<close>)
  then show ?thesis
    unfolding im2col_scan_rows_def input_row_0 by simp
qed

lemma im2col_scan_kernel_cols_steps:
  fixes im :: "'a::zero list"
  assumes v: "valid_window d" and s: "scan_in_int32 d"
    and c: "0 \<le> c" "c < channels d" and kr: "0 \<le> kr" "kr < kernel_h d"
    and im: "int (length im) = im_size d" and col: "int (length col) = col_size d"
  shows "for_up 0 (kernel_w d) (\<lambda>kernel_col.
        im2col_scan_rows d im (c * (height d * width d)) kr kernel_col)
      (col_index_nchw d c kr 0 0 0, col)
    = Some (col_index_nchw d c kr 0 0 0 + kernel_w d * (output_h d * output_w d),
        steps (nchw_gather d im) (col_index_nchw d c kr 0 0 0)
          (col_index_nchw d c kr 0 0 0 + kernel_w d * (output_h d * output_w d)) col)"
proof -
  let ?p = "col_index_nchw d c kr 0 0 0"
  let ?blk = "output_h d * output_w d"
  have "for_up 0 (kernel_w d) (\<lambda>kernel_col.
        im2col_scan_rows d im (c * (height d * width d)) kr kernel_col)
      (?p + 0 * ?blk, col)
    = Some (?p + kernel_w d * ?blk,
        steps (nchw_gather d im) (?p + 0 * ?blk) (?p + kernel_w d * ?blk) col)"
  proof (rule for_up_sim[where st = "\<lambda>j t. (?p + j * ?blk, t)"
        and P = "\<lambda>t. int (length t) = col_size d"])
    fix j and t :: "'a list"
    assume j: "0 \<le> j" "j < kernel_w d" and t: "int (length t) = col_size d"
    have p: "?p + j * ?blk = col_index_nchw d c kr j 0 0"
      by (simp add: col_index_nchw_kc[of d c kr j])
    have nxt: "?p + (j + 1) * ?blk = col_index_nchw d c kr j 0 0 + ?blk"
      by (simp add: col_index_nchw_kc[of d c kr j] algebra_simps)
    show "im2col_scan_rows d im (c * (height d * width d)) kr j (?p + j * ?blk, t)
      = Some (?p + (j + 1) * ?blk,
          steps (nchw_gather d im) (?p + j * ?blk) (?p + j * ?blk + ?blk) t)"
      unfolding p nxt by (rule im2col_scan_rows_steps[OF v s c kr j im t])
  qed (use v col in \<open>simp_all add: valid_window_def\<close>)
  then show ?thesis by simp
qed

lemma im2col_scan_kernel_rows_steps:
  fixes im :: "'a::zero list"
  assumes v: "valid_window d" and s: "scan_in_int32 d"
    and c: "0 \<le> c" "c < channels d"
    and im: "int (length im) = im_size d" and col: "int (length col) = col_size d"
  shows "for_up 0 (kernel_h d) (\<lambda>kernel_row. for_up 0 (kernel_w d) (\<lambda>kernel_col.
        im2col_scan_rows d im (c * (height d * width d)) kernel_row kernel_col))
      (col_index_nchw d c 0 0 0 0, col)
    = Some (col_index_nchw d c 0 0 0 0 + kernel_h d * (kernel_w d * (output_h d * output_w d)),
        steps (nchw_gather d im) (col_index_nchw d c 0 0 0 0)
          (col_index_nchw d c 0 0 0 0 + kernel_h d * (kernel_w d * (output_h d * output_w d))) col)"
proof -
  let ?p = "col_index_nchw d c 0 0 0 0"
  let ?blk = "kernel_w d * (output_h d * output_w d)"
  have "for_up 0 (kernel_h d) (\<lambda>kernel_row. for_up 0 (kernel_w d) (\<lambda>kernel_col.
        im2col_scan_rows d im (c * (height d * width d)) kernel_row kernel_col))
      (?p + 0 * ?blk, col)
    = Some (?p + kernel_h d * ?blk,
        steps (nchw_gather d im) (?p + 0 * ?blk) (?p + kernel_h d * ?blk) col)"
  proof (rule for_up_sim[where st = "\<lambda>j t. (?p + j * ?blk, t)"
        and P = "\<lambda>t. int (length t) = col_size d"])
    fix j and t :: "'a list"
    assume j: "0 \<le> j" "j < kernel_h d" and t: "int (length t) = col_size d"
    have p: "?p + j * ?blk = col_index_nchw d c j 0 0 0"
      by (simp add: col_index_nchw_kr[of d c j])
    have nxt: "?p + (j + 1) * ?blk = col_index_nchw d c j 0 0 0 + ?blk"
      by (simp add: col_index_nchw_kr[of d c j] algebra_simps)
    show "for_up 0 (kernel_w d) (\<lambda>kernel_col.
          im2col_scan_rows d im (c * (height d * width d)) j kernel_col) (?p + j * ?blk, t)
      = Some (?p + (j + 1) * ?blk,
          steps (nchw_gather d im) (?p + j * ?blk) (?p + j * ?blk + ?blk) t)"
      unfolding p nxt by (rule im2col_scan_kernel_cols_steps[OF v s c j im t])
  qed (use v col in \<open>simp_all add: valid_window_def\<close>)
  then show ?thesis by simp
qed

lemma Im2col_equal_pad_steps:
  fixes im :: "'a::zero list"
  assumes v: "valid_window d" and s: "scan_in_int32 d"
    and im: "int (length im) = im_size d" and col: "int (length col) = col_size d"
  shows "Im2col_equal_pad d im col = Some (steps (nchw_gather d im) 0 (col_size d) col)"
proof -
  let ?blk = "kernel_h d * (kernel_w d * (output_h d * output_w d))"
  let ?body = "\<lambda>(im', data_col, col). do {
         (data_col', col') \<leftarrow>
           for_up 0 (kernel_h d) (\<lambda>kernel_row.
             for_up 0 (kernel_w d) (\<lambda>kernel_col.
               im2col_scan_rows d im im' kernel_row kernel_col)) (data_col, col);
         Some (im' + height d * width d, data_col', col') }"
  have "count_down (channels d) ?body (0 * (height d * width d), 0 + 0 * ?blk, col)
    = Some (channels d * (height d * width d), 0 + channels d * ?blk,
        steps (nchw_gather d im) 0 (0 + channels d * ?blk) col)"
  proof (rule count_down_sim[where st = "\<lambda>j t. (j * (height d * width d), 0 + j * ?blk, t)"
        and P = "\<lambda>t. int (length t) = col_size d"])
    fix j and t :: "'a list"
    assume j: "0 \<le> j" "j < channels d" and t: "int (length t) = col_size d"
    have p: "0 + j * ?blk = col_index_nchw d j 0 0 0 0"
      by (simp add: col_index_nchw_c)
    have nxt: "0 + (j + 1) * ?blk = col_index_nchw d j 0 0 0 0 + ?blk"
      by (simp add: col_index_nchw_c algebra_simps)
    have im': "(j + 1) * (height d * width d) = j * (height d * width d) + height d * width d"
      by (simp add: algebra_simps)
    show "?body (j * (height d * width d), 0 + j * ?blk, t)
      = Some ((j + 1) * (height d * width d), 0 + (j + 1) * ?blk,
          steps (nchw_gather d im) (0 + j * ?blk) (0 + j * ?blk + ?blk) t)"
      unfolding p nxt im'
      by (simp add: im2col_scan_kernel_rows_steps[OF v s j im t])
  qed (use v col in \<open>simp_all add: valid_window_def\<close>)
  moreover have "channels d * ?blk = col_size d"
    by (simp add: col_size_def algebra_simps)
  ultimately show ?thesis
    by (simp add: Im2col_equal_pad_def)
qed


section \<open>Im2col, channel-major: the block-copy path\<close>


text \<open>
  The block-copy path tests no coordinate. When the kernel is no larger than the image,
  every tap lies in the image, and the path performs the same steps again.
\<close>

lemma memcpy_steps:
  assumes "0 \<le> n" "0 \<le> dp" "dp + n \<le> int (length dst)" "0 \<le> sp" "sp + n \<le> int (length src)"
  shows "memcpy dst dp src sp n
    = Some (steps (\<lambda>q b. b[nat q := src ! nat (sp + (q - dp))]) dp (dp + n) dst)"
proof -
  have "for_up 0 n (\<lambda>i b. do { v \<leftarrow> load src (sp + i); store b (dp + i) v }) dst
    = Some (steps (\<lambda>q b. b[nat q := src ! nat (sp + (q - dp))]) dp (dp + n * 1) dst)"
  proof (rule for_up_steps[where P = "\<lambda>t. length t = length dst"])
    fix j and t :: "'a list"
    assume "0 \<le> j" "j < n" "length t = length dst"
    then show "do { v \<leftarrow> load src (sp + j); store t (dp + j) v }
      = Some (steps (\<lambda>q b. b[nat q := src ! nat (sp + (q - dp))]) (dp + j * 1) (dp + j * 1 + 1) t)"
      using assms by (simp add: load_in store_in)
  qed (use assms in simp_all)
  then show ?thesis using assms by (simp add: memcpy_def)
qed

lemma memcpy_one:
  assumes "0 \<le> dp" "dp < int (length dst)" "0 \<le> sp" "sp < int (length src)"
  shows "memcpy dst dp src sp 1 = Some (dst[nat dp := src ! nat sp])"
  using memcpy_steps[of 1 dp dst sp src] assms by simp

lemma div_mult_le_pos: "0 < s \<Longrightarrow> (a div s) * s \<le> (a::int)"
  using div_mult_mod_eq[of a s] pos_mod_sign[of s a] by linarith

lemma fit_bound:
  assumes "0 \<le> n" "1 \<le> s" "0 \<le> y" "y < n sdiv s + 1"
  shows "y * s \<le> (n::int)"
proof -
  have "y \<le> n div s" using assms by (simp add: sdiv_nonneg)
  then have "y * s \<le> (n div s) * s" using assms by (intro mult_right_mono) simp_all
  also have "\<dots> \<le> n" using assms by (intro div_mult_le_pos) simp
  finally show ?thesis .
qed

lemma zero_pad_in_image:
  assumes v: "valid_window d" and z: "zero_pad_no_dilation d" and f: "kernel_fits d"
    and "0 \<le> y" "y < output_h d" "0 \<le> kr" "kr < kernel_h d"
    and "0 \<le> x" "x < output_w d" "0 \<le> kc" "kc < kernel_w d"
  shows "in_image d (input_row d y kr) (input_col d x kc)"
proof -
  have "y * stride_h d \<le> height d - kernel_h d"
    using assms by (intro fit_bound)
      (simp_all add: valid_window_def zero_pad_no_dilation_def kernel_fits_def dkernel_h_def output_h_def)
  moreover have "x * stride_w d \<le> width d - kernel_w d"
    using assms by (intro fit_bound)
      (simp_all add: valid_window_def zero_pad_no_dilation_def kernel_fits_def dkernel_w_def output_w_def)
  moreover have "0 \<le> y * stride_h d" "0 \<le> x * stride_w d"
    using assms by (simp_all add: valid_window_def)
  ultimately show ?thesis
    using assms by (simp add: in_image_def input_row_def input_col_def zero_pad_no_dilation_def)
qed

lemma kernel_index_code_zero_pad:
  assumes "0 \<le> k" "0 < kh" "0 < kw"
  shows "k sdiv (kh * kw) = k div kw div (kh::int)"
    "(k smod (kh * kw)) sdiv kw = (k div kw) mod kh"
    "(k smod (kh * kw)) smod kw = k mod kw"
proof -
  have pos: "0 \<le> kh * kw" using assms by simp
  have m: "k smod (kh * kw) = k mod (kw * kh)"
    using assms pos by (simp add: smod_nonneg mult.commute)
  have m0: "0 \<le> k mod (kw * kh)" using assms by simp
  have e: "k mod (kw * kh) = kw * (k div kw mod kh) + k mod kw"
    using assms by (simp add: zmod_zmult2_eq)
  have "k sdiv (kh * kw) = k div (kw * kh)"
    using assms pos by (simp add: sdiv_nonneg mult.commute)
  also have "\<dots> = k div kw div kh"
    using assms by (simp add: zdiv_zmult2_eq)
  finally show "k sdiv (kh * kw) = k div kw div kh" .
  have "(k smod (kh * kw)) sdiv kw = (k mod (kw * kh)) div kw"
    using m m0 assms by (simp add: sdiv_nonneg)
  also have "\<dots> = (k div kw) mod kh"
    using assms by (simp add: e)
  finally show "(k smod (kh * kw)) sdiv kw = (k div kw) mod kh" .
  have "(k smod (kh * kw)) smod kw = (k mod (kw * kh)) mod kw"
    using m m0 assms by (simp add: smod_nonneg)
  also have "\<dots> = k mod kw"
    using assms by (simp add: e)
  finally show "(k smod (kh * kw)) smod kw = k mod kw" .
qed

lemma kernel_index_recompose:
  "(k div kw div kh * kh + (k div kw) mod kh) * kw + k mod kw = (k::int)"
  by simp


lemma steps_one' [simp]: "steps f a (1 + a) s = f a s"
  by (simp add: steps_def)

lemma zero_pad_coords:
  assumes "zero_pad_no_dilation d"
  shows "input_row d y kr = y * stride_h d + kr" "input_col d x kc = x * stride_w d + kc"
  using assms by (simp_all add: zero_pad_no_dilation_def input_row_def input_col_def)

lemma im_index_nchw_q: "im_index_nchw d c r q = im_index_nchw d c r 0 + q"
  by (simp add: im_index_nchw_def)

lemma nchw_gather_zero_pad:
  fixes im :: "'a::zero list"
  assumes v: "valid_window d" and z: "zero_pad_no_dilation d" and f: "kernel_fits d"
    and kr: "0 \<le> kr" "kr < kernel_h d" and kc: "0 \<le> kc" "kc < kernel_w d"
    and y: "0 \<le> y" "y < output_h d" and x: "0 \<le> x" "x < output_w d"
  shows "nchw_gather d im (col_index_nchw d c kr kc y 0 + x) col
    = col[nat (col_index_nchw d c kr kc y 0 + x)
        := im ! nat (im_index_nchw d c (y * stride_h d + kr) 0 + (x * stride_w d + kc))]"
proof -
  note ii = zero_pad_in_image[OF v z f y kr x kc]
  have "nchw_tap d (col_index_nchw d c kr kc y 0 + x)
    = Some (im_index_nchw d c (input_row d y kr) (input_col d x kc))"
    using nchw_tap_col_index[OF v kr kc y x, of c] ii
    by (simp add: col_index_nchw_x[symmetric])
  then show ?thesis
    by (simp add: nchw_gather_def zero_pad_coords[OF z] im_index_nchw_q[symmetric])
qed

lemma im2col_zero_pad_row_steps:
  fixes im :: "'a::zero list"
  assumes v: "valid_window d" and z: "zero_pad_no_dilation d" and f: "kernel_fits d"
    and c: "0 \<le> c" "c < channels d" and kr: "0 \<le> kr" "kr < kernel_h d"
    and kc: "0 \<le> kc" "kc < kernel_w d" and y: "0 \<le> y" "y < output_h d"
    and im: "int (length im) = im_size d" and col: "int (length col) = col_size d"
  shows "im2col_zero_pad_row d im (col_index_nchw d c kr kc 0 0) (c * (height d * width d)) kr kc y col
    = Some (steps (nchw_gather d im) (col_index_nchw d c kr kc y 0)
        (col_index_nchw d c kr kc y 0 + output_w d) col)"
proof -
  let ?p = "col_index_nchw d c kr kc y 0"
  let ?s = "im_index_nchw d c (y * stride_h d + kr) 0"
  have ow: "1 \<le> output_w d" using v by (simp add: valid_window_def)
  have dst: "col_index_nchw d c kr kc 0 0 + y * output_w d = ?p"
    by (simp add: col_index_nchw_y[of d c kr kc y])
  have dstx: "\<And>x. col_index_nchw d c kr kc 0 0 + (y * output_w d + x) = ?p + x"
    by (simp add: col_index_nchw_y[of d c kr kc y])
  have src: "\<And>q. c * (height d * width d) + ((y * stride_h d + kr) * width d + q) = ?s + q"
    by (simp add: im_index_nchw_def algebra_simps)
  have src2: "\<And>a b. c * (height d * width d) + ((y * stride_h d + kr) * width d + a + b) = ?s + (a + b)"
    by (simp add: im_index_nchw_def algebra_simps)
  have colb: "0 \<le> ?p + x \<and> ?p + x < col_size d" if "0 \<le> x" "x < output_w d" for x
    using col_index_nchw_bounds[OF c kr kc y that] by (simp add: col_index_nchw_x[symmetric])
  have imb: "0 \<le> ?s + (x * stride_w d + kc) \<and> ?s + (x * stride_w d + kc) < im_size d"
    if "0 \<le> x" "x < output_w d" for x
    using im_index_nchw_bounds[OF c zero_pad_in_image[OF v z f y kr that kc]]
    by (simp add: zero_pad_coords[OF z] im_index_nchw_q[symmetric])
  show ?thesis
  proof (cases "stride_w d = 1")
    case True
    have b: "0 \<le> ?p" "?p + output_w d \<le> int (length col)"
      "0 \<le> ?s + kc" "?s + kc + output_w d \<le> int (length im)"
      using colb[of 0] colb[of "output_w d - 1"] imb[of 0] imb[of "output_w d - 1"] ow True im col
      by (simp_all add: algebra_simps)
    have "memcpy col ?p im (?s + kc) (output_w d)
      = Some (steps (\<lambda>q b. b[nat q := im ! nat (?s + kc + (q - ?p))]) ?p (?p + output_w d) col)"
      using ow b by (intro memcpy_steps) simp_all
    also have "steps (\<lambda>q b. b[nat q := im ! nat (?s + kc + (q - ?p))]) ?p (?p + output_w d) col
      = steps (nchw_gather d im) ?p (?p + output_w d) col"
    proof (rule steps_cong[where P = "\<lambda>t. length t = length col"])
      fix q and t :: "'a list"
      assume q: "?p \<le> q" "q < ?p + output_w d" and "length t = length col"
      have x: "0 \<le> q - ?p" "q - ?p < output_w d" using q by simp_all
      show "t[nat q := im ! nat (?s + kc + (q - ?p))] = nchw_gather d im q t
        \<and> length (nchw_gather d im q t) = length col"
        using nchw_gather_zero_pad[OF v z f kr kc y x, where c = c and im = im and col = t] True \<open>length t = length col\<close>
        by (simp add: algebra_simps)
    qed simp
    finally show ?thesis
      using True by (simp add: im2col_zero_pad_row_def dst src)
  next
    case False
    have "for_up 0 (output_w d) (\<lambda>x col.
          memcpy col (?p + x) im (?s + (kc + x * stride_w d)) 1) col
      = Some (steps (nchw_gather d im) ?p (?p + output_w d * 1) col)"
    proof (rule for_up_steps[where P = "\<lambda>t. int (length t) = col_size d"])
      fix j and t :: "'a list"
      assume j: "0 \<le> j" "j < output_w d" and t: "int (length t) = col_size d"
      show "memcpy t (?p + j) im (?s + (kc + j * stride_w d)) 1
        = Some (steps (nchw_gather d im) (?p + j * 1) (?p + j * 1 + 1) t)"
        using colb[OF j] imb[OF j] t im nchw_gather_zero_pad[OF v z f kr kc y j, where c = c and im = im and col = t]
        by (simp add: memcpy_one algebra_simps)
    qed (use v col in \<open>simp_all add: valid_window_def\<close>)
    then show ?thesis
      using False by (simp add: im2col_zero_pad_row_def dstx src2)
  qed
qed


lemma col_index_nchw_kernel:
  "col_index_nchw d (k div kernel_w d div kernel_h d) ((k div kernel_w d) mod kernel_h d)
      (k mod kernel_w d) 0 0 = k * (output_h d * output_w d)"
proof -
  have "col_index_nchw d (k div kernel_w d div kernel_h d) ((k div kernel_w d) mod kernel_h d)
      (k mod kernel_w d) 0 0
    = ((k div kernel_w d div kernel_h d * kernel_h d + (k div kernel_w d) mod kernel_h d)
        * kernel_w d + k mod kernel_w d) * (output_h d * output_w d)"
    by (simp add: col_index_nchw_def algebra_simps)
  then show ?thesis by (simp only: kernel_index_recompose)
qed

lemma zero_pad_dst:
  "nip * (kernel_h d * kernel_w d * output_h d * output_w d) +
     kh * (kernel_w d * output_h d * output_w d) + kw * (output_h d * output_w d)
   = col_index_nchw d nip kh kw 0 0"
  by (simp add: col_index_nchw_def algebra_simps)

lemma im2col_zero_pad_plane_steps:
  fixes im :: "'a::zero list"
  assumes v: "valid_window d" and z: "zero_pad_no_dilation d" and f: "kernel_fits d"
    and k: "0 \<le> k" "k < channels d * kernel_h d * kernel_w d"
    and im: "int (length im) = im_size d" and col: "int (length col) = col_size d"
  shows "im2col_zero_pad_plane d im k col
    = Some (steps (nchw_gather d im) (k * (output_h d * output_w d))
        (k * (output_h d * output_w d) + output_h d * output_w d) col)"
proof -
  have kk: "0 < kernel_h d" "0 < kernel_w d" using v by (simp_all add: valid_window_def)
  note code = kernel_index_code_zero_pad[OF k(1) kk]
  note split = kernel_index_split[OF k kk]
  let ?c = "k div kernel_w d div kernel_h d"
  let ?kr = "(k div kernel_w d) mod kernel_h d"
  let ?kc = "k mod kernel_w d"
  let ?p = "col_index_nchw d ?c ?kr ?kc 0 0"
  have "for_up 0 (output_h d)
      (im2col_zero_pad_row d im ?p (?c * (height d * width d)) ?kr ?kc) col
    = Some (steps (nchw_gather d im) ?p (?p + output_h d * output_w d) col)"
  proof (rule for_up_steps[where P = "\<lambda>t. int (length t) = col_size d"])
    fix j and t :: "'a list"
    assume j: "0 \<le> j" "j < output_h d" and t: "int (length t) = col_size d"
    show "im2col_zero_pad_row d im ?p (?c * (height d * width d)) ?kr ?kc j t
      = Some (steps (nchw_gather d im) (?p + j * output_w d) (?p + j * output_w d + output_w d) t)"
      using im2col_zero_pad_row_steps[OF v z f split j im t]
      by (simp add: col_index_nchw_y[of d ?c ?kr ?kc j])
  qed (use v col in \<open>simp_all add: valid_window_def\<close>)
  then show ?thesis
    unfolding im2col_zero_pad_plane_def Let_def code zero_pad_dst
    by (simp only: col_index_nchw_kernel)
qed

lemma Im2col_zero_pad_steps:
  fixes im :: "'a::zero list"
  assumes v: "valid_window d" and z: "zero_pad_no_dilation d" and f: "kernel_fits d"
    and im: "int (length im) = im_size d" and col: "int (length col) = col_size d"
  shows "Im2col_zero_pad d im col = Some (steps (nchw_gather d im) 0 (col_size d) col)"
proof -
  have "for_up 0 (channels d * kernel_h d * kernel_w d) (im2col_zero_pad_plane d im) col
    = Some (steps (nchw_gather d im) 0
        (0 + channels d * kernel_h d * kernel_w d * (output_h d * output_w d)) col)"
  proof (rule for_up_steps[where P = "\<lambda>t. int (length t) = col_size d"])
    fix j and t :: "'a list"
    assume "0 \<le> j" "j < channels d * kernel_h d * kernel_w d" "int (length t) = col_size d"
    then show "im2col_zero_pad_plane d im j t
      = Some (steps (nchw_gather d im) (0 + j * (output_h d * output_w d))
          (0 + j * (output_h d * output_w d) + output_h d * output_w d) t)"
      using im2col_zero_pad_plane_steps[OF v z f _ _ im] by simp
  qed (use v col in \<open>simp_all add: valid_window_def\<close>)
  then show ?thesis by (simp add: Im2col_zero_pad_def col_size_def algebra_simps)
qed


subsection \<open>The three paths agree\<close>





section \<open>Col2im, channel-major\<close>

subsection \<open>The fallback path\<close>









subsection \<open>The equal-padding scan\<close>









subsection \<open>The zero-padding path\<close>







subsection \<open>The three paths agree\<close>





section \<open>Im2col, channel-minor\<close>


text \<open>The channel-minor forward transform performs \<open>nhwc_gather\<close> at
  \<open>0, \<dots>, col_size - 1\<close>.\<close>

lemma length_nhwc_gather [simp]: "length (nhwc_gather d im j col) = length col"
  by (simp add: nhwc_gather_def)

lemma length_nhwc_scatter [simp]: "length (nhwc_scatter d col j im) = length im"
  by (simp add: nhwc_scatter_def split: option.splits)






















section \<open>Col2im, channel-minor\<close>








section \<open>Zero fill before accumulation\<close>

subsection \<open>What a loop keeps\<close>






subsection \<open>Filling with a constant\<close>

lemma steps_update_length:
  assumes "\<And>q t. a \<le> q \<Longrightarrow> q < b \<Longrightarrow> f q t = t[nat q := v q]"
  shows "length (steps f a b t) = length t"
  using assms by (intro steps_invariant[where P = "\<lambda>s. length s = length t"]) simp_all

lemma steps_update_nth:
  assumes "\<And>q t. a \<le> q \<Longrightarrow> q < b \<Longrightarrow> f q t = t[nat q := v q]"
    and "0 \<le> a" "0 \<le> j" "j < int (length t)"
  shows "steps f a b t ! nat j = (if a \<le> j \<and> j < b then v j else t ! nat j)"
  using assms
proof (induction "nat (b - a)" arbitrary: a t)
  case 0
  then have "b \<le> a" by simp
  then show ?case by auto
next
  case (Suc k)
  then have ab: "a < b" by simp
  have fa: "f a t = t[nat a := v a]" using Suc.prems(1) ab by simp
  have "steps f (a + 1) b (f a t) ! nat j
    = (if a + 1 \<le> j \<and> j < b then v j else f a t ! nat j)"
    using Suc.hyps(2) ab Suc.prems by (intro Suc.hyps(1)) (simp_all add: fa)
  moreover have "f a t ! nat j = (if j = a then v a else t ! nat j)"
    using Suc.prems by (auto simp: fa nth_list_update)
  ultimately show ?case using ab by (auto simp: steps_first)
qed

lemma Set_replicate:
  assumes "int (length Y) = N"
  shows "Set N a Y = Some (replicate (nat N) a)"
proof -
  have N: "0 \<le> N" using assms by auto
  have "for_up 0 N (\<lambda>i b. store b i a) Y
    = Some (steps (\<lambda>q b. b[nat q := a]) 0 (0 + N * 1) Y)"
  proof (rule for_up_steps[where P = "\<lambda>t. length t = length Y"])
    fix j and t :: "'a list"
    assume "0 \<le> j" "j < N" "length t = length Y"
    then show "store t j a = Some (steps (\<lambda>q b. b[nat q := a]) (0 + j * 1) (0 + j * 1 + 1) t)"
      using assms by (simp add: store_in)
  qed (use N in simp_all)
  moreover have "steps (\<lambda>q b. b[nat q := a]) 0 N Y = replicate (nat N) a"
  proof (rule nth_equalityI)
    show len: "length (steps (\<lambda>q b. b[nat q := a]) 0 N Y) = length (replicate (nat N) a)"
      using assms by (simp add: steps_update_length[where v = "\<lambda>_. a"])
    fix i assume "i < length (steps (\<lambda>q b. b[nat q := a]) 0 N Y)"
    then have i: "int i < N" using len by simp
    then have "steps (\<lambda>q b. b[nat q := a]) 0 N Y ! nat (int i) = a"
      using assms by (subst steps_update_nth[where v = "\<lambda>_. a"]) simp_all
    then show "steps (\<lambda>q b. b[nat q := a]) 0 N Y ! i = replicate (nat N) a ! i"
      using i by simp
  qed
  ultimately show ?thesis using N by (simp add: Set_def)
qed

subsection \<open>The inverse transforms keep the length of the image\<close>



















subsection \<open>The transforms start from the zero image\<close>

lemma Col2im_NCHW_zero_filled:
  fixes col :: "'a::{zero,plus} list"
  assumes "int (length im) = im_size d"
  shows "Col2im_NCHW d col im =
     (if zero_pad_no_dilation d then Col2im_zero_pad d col (replicate (nat (im_size d)) 0)
      else if equal_padding d then Col2im_equal_pad d col (replicate (nat (im_size d)) 0)
      else Col2im_fallback d col (replicate (nat (im_size d)) 0))"
proof -
  have "height d * width d * channels d = im_size d" by (simp add: im_size_def)
  then show ?thesis using assms by (simp add: Col2im_NCHW_def Set_replicate)
qed









section \<open>Bounds of the zero-padding fast paths\<close>






section \<open>Entries in the padding\<close>

lemma nchw_gather_nth:
  fixes im :: "'a::zero list"
  assumes "0 \<le> j" "j < b" "b \<le> int (length col)"
  shows "steps (nchw_gather d im) 0 b col ! nat j
    = (case nchw_tap d j of None \<Rightarrow> 0 | Some i \<Rightarrow> im ! nat i)"
  using assms
  by (subst steps_update_nth[where v = "\<lambda>q. case nchw_tap d q of None \<Rightarrow> 0 | Some i \<Rightarrow> im ! nat i"])
    (simp_all add: nchw_gather_def)


lemma Im2col_NCHW_steps:
  fixes im :: "'a::zero list"
  assumes v: "valid_window d" and s: "scan_in_int32 d"
    and f: "zero_pad_no_dilation d \<longrightarrow> kernel_fits d"
    and im: "int (length im) = im_size d" and col: "int (length col) = col_size d"
  shows "Im2col_NCHW d im col = Some (steps (nchw_gather d im) 0 (col_size d) col)"
  using f
  by (simp add: Im2col_NCHW_def Im2col_zero_pad_steps[OF v _ _ im col]
      Im2col_equal_pad_steps[OF v s im col] Im2col_baseline_steps[OF v im col])







section \<open>The runs of the channel-minor forward transform\<close>





section \<open>The inverse of the forward transform at interior samples\<close>









subsection \<open>Repeated addition\<close>

text \<open>In exact arithmetic, adding a value \<open>n\<close> times to zero gives \<open>n\<close> times the value.\<close>

lemma repeated_add_exact:
  fixes v :: "'a::semiring_1"
  shows "((\<lambda>acc. acc + v) ^^ n) 0 = of_nat n * v"
  by (induction n) (simp_all add: algebra_simps)




subsection \<open>The interior samples\<close>





section \<open>The concrete scenario\<close>

text \<open>The forward transform overwrites every entry of the column buffer.\<close>

lemma Im2col_NCHW_overwrites:
  fixes im :: "'a::zero list"
  assumes v: "valid_window d" and s: "scan_in_int32 d"
    and f: "zero_pad_no_dilation d \<longrightarrow> kernel_fits d"
    and im: "int (length im) = im_size d"
    and col: "int (length col) = col_size d" and col': "int (length col') = col_size d"
  shows "Im2col_NCHW d im col = Im2col_NCHW d im col'"
proof -
  let ?N = "col_size d"
  have l: "length (steps (nchw_gather d im) 0 ?N t) = length t" for t :: "'a list"
    by (simp add: steps_invariant[where P = "\<lambda>u. length u = length t"])
  have "steps (nchw_gather d im) 0 ?N col = steps (nchw_gather d im) 0 ?N col'"
  proof (rule nth_equalityI)
    show "length (steps (nchw_gather d im) 0 ?N col) = length (steps (nchw_gather d im) 0 ?N col')"
      using col col' by (simp add: l)
  next
    fix k assume "k < length (steps (nchw_gather d im) 0 ?N col)"
    then have k: "0 \<le> int k" "int k < ?N" using col by (simp_all add: l)
    have "steps (nchw_gather d im) 0 ?N col ! nat (int k)
        = steps (nchw_gather d im) 0 ?N col' ! nat (int k)"
      using k col col' by (simp only: nchw_gather_nth order_refl)
    then show "steps (nchw_gather d im) 0 ?N col ! k = steps (nchw_gather d im) 0 ?N col' ! k"
      by simp
  qed
  then show ?thesis
    by (simp only: Im2col_NCHW_steps[OF v s f im col] Im2col_NCHW_steps[OF v s f im col'])
qed

text \<open>
  C3. For one channel of \<open>4 \<times> 4\<close> samples, a \<open>2 \<times> 2\<close> kernel, stride 1, dilation 1 and no
  padding, the output is \<open>3 \<times> 3\<close>; Im2col of the signal \<open>0, \<dots>, 15\<close> is a \<open>4 \<times> 9\<close> column
  buffer whose column 0 is \<open>[0, 1, 4, 5]\<close>; Col2im of the all-ones column buffer is the
  overlap count of each pixel. Both hold whatever the destination buffer, of the right
  size, held before the call. (The values are integers below 17, which the source's
  \<open>float\<close> represents and adds exactly.)
\<close>

theorem scenario_4x4:
  fixes col0 im0 :: "int list"
  assumes "length col0 = 36" and "length im0 = 16"
  shows "output_h window_4x4_k2 = 3 \<and> output_w window_4x4_k2 = 3
   \<and> Im2col_NCHW window_4x4_k2 [0..15] col0
       = Some [0, 1, 2, 4, 5, 6, 8, 9, 10,
               1, 2, 3, 5, 6, 7, 9, 10, 11,
               4, 5, 6, 8, 9, 10, 12, 13, 14,
               5, 6, 7, 9, 10, 11, 13, 14, 15]
   \<and> matrix_column 4 9 0 (the (Im2col_NCHW window_4x4_k2 [0..15] col0)) = [0, 1, 4, 5]
   \<and> Col2im_NCHW window_4x4_k2 (replicate 36 (1::int)) im0
       = Some [1, 2, 2, 1,
               2, 4, 4, 2,
               2, 4, 4, 2,
               1, 2, 2, 1]"
proof -
  let ?d = window_4x4_k2
  have o: "output_h ?d = 3" "output_w ?d = 3"
    by (simp_all add: window_4x4_k2_def output_h_def output_w_def)
  have v: "valid_window ?d" and z: "zero_pad_no_dilation ?d"
    by (simp_all add: valid_window_def zero_pad_no_dilation_def o) (simp_all add: window_4x4_k2_def)
  have f: "zero_pad_no_dilation ?d \<longrightarrow> kernel_fits ?d"
    by (simp add: kernel_fits_def dkernel_h_def dkernel_w_def window_4x4_k2_def)
  have s: "scan_in_int32 ?d"
    by (simp add: scan_in_int32_def int32_def input_row_def input_col_def o)
      (simp add: window_4x4_k2_def)
  have sz: "im_size ?d = 16" "col_size ?d = 36"
    by (simp_all add: im_size_def col_size_def o) (simp_all add: window_4x4_k2_def)
  have l: "int (length [0..15::int]) = im_size ?d" "int (length col0) = col_size ?d"
    "int (length (replicate 36 (0::int))) = col_size ?d" "int (length im0) = im_size ?d"
    "int (length (replicate 16 (0::int))) = im_size ?d"
    using assms by (simp_all add: sz)
  have a: "Im2col_NCHW ?d [0..15] col0 = Im2col_NCHW ?d [0..15] (replicate 36 0)"
    by (rule Im2col_NCHW_overwrites[OF v s f l(1,2,3)])
  have b: "Col2im_NCHW ?d (replicate 36 1) im0 = Col2im_NCHW ?d (replicate 36 1) (replicate 16 0)"
    by (simp only: Col2im_NCHW_zero_filled[OF l(4)] Col2im_NCHW_zero_filled[OF l(5)])
  have e: "Im2col_NCHW ?d [0..15] (replicate 36 0)
       = Some [0, 1, 2, 4, 5, 6, 8, 9, 10,
               1, 2, 3, 5, 6, 7, 9, 10, 11,
               4, 5, 6, 8, 9, 10, 12, 13, 14,
               5, 6, 7, 9, 10, 11, 13, 14, 15]"
    "matrix_column 4 9 0
        [0, 1, 2, 4, 5, 6, 8, 9, 10,
         1, 2, 3, 5, 6, 7, 9, 10, 11,
         4, 5, 6, 8, 9, 10, 12, 13, 14,
         5, 6, 7, 9, 10, 11, 13, 14, 15::int] = [0, 1, 4, 5]"
    "Col2im_NCHW ?d (replicate 36 (1::int)) (replicate 16 0)
       = Some [1, 2, 2, 1,
               2, 4, 4, 2,
               2, 4, 4, 2,
               1, 2, 2, 1]"
    by code_simp+
  show ?thesis by (simp only: a b e o option.sel)
qed

text \<open>The scenario with a column buffer of sevens and an image of fives before the calls.\<close>

theorem scenario_4x4_witness:
  "length (replicate 36 (7::int)) = 36 \<and> length (replicate 16 (5::int)) = 16
   \<and> Im2col_NCHW window_4x4_k2 [0..15] (replicate 36 7)
       = Some [0, 1, 2, 4, 5, 6, 8, 9, 10,
               1, 2, 3, 5, 6, 7, 9, 10, 11,
               4, 5, 6, 8, 9, 10, 12, 13, 14,
               5, 6, 7, 9, 10, 11, 13, 14, 15]
   \<and> Col2im_NCHW window_4x4_k2 (replicate 36 (1::int)) (replicate 16 5)
       = Some [1, 2, 2, 1,
               2, 4, 4, 2,
               2, 4, 4, 2,
               1, 2, 2, 1]"
  using scenario_4x4 [of "replicate 36 7" "replicate 16 5"] by simp

text \<open>
  The same scenario on \<open>float\<close> buffers, with the rounding addition: the results are the
  same numbers.
\<close>

lemma scenario_4x4_binary32:
  fixes col0 im0 :: "float32 list"
  assumes "length col0 = 36" and "length im0 = 16"
  shows "Im2col_NCHW window_4x4_k2 (map Float32 [0..15]) col0
       = Some (map Float32 [0, 1, 2, 4, 5, 6, 8, 9, 10,
                            1, 2, 3, 5, 6, 7, 9, 10, 11,
                            4, 5, 6, 8, 9, 10, 12, 13, 14,
                            5, 6, 7, 9, 10, 11, 13, 14, 15])"
    and "Col2im_NCHW window_4x4_k2 (replicate 36 (Float32 1)) im0
       = Some (map Float32 [1, 2, 2, 1,
                            2, 4, 4, 2,
                            2, 4, 4, 2,
                            1, 2, 2, 1])"
proof -
  let ?d = window_4x4_k2
  have o: "output_h ?d = 3" "output_w ?d = 3"
    by (simp_all add: window_4x4_k2_def output_h_def output_w_def)
  have v: "valid_window ?d"
    by (simp add: valid_window_def o) (simp add: window_4x4_k2_def)
  have f: "zero_pad_no_dilation ?d \<longrightarrow> kernel_fits ?d"
    by (simp add: kernel_fits_def dkernel_h_def dkernel_w_def window_4x4_k2_def)
  have s: "scan_in_int32 ?d"
    by (simp add: scan_in_int32_def int32_def input_row_def input_col_def o)
      (simp add: window_4x4_k2_def)
  have sz: "im_size ?d = 16" "col_size ?d = 36"
    by (simp_all add: im_size_def col_size_def o) (simp_all add: window_4x4_k2_def)
  have l: "int (length (map Float32 [0..15])) = im_size ?d" "int (length col0) = col_size ?d"
    "int (length (replicate 36 (0::float32))) = col_size ?d" "int (length im0) = im_size ?d"
    "int (length (replicate 16 (0::float32))) = im_size ?d"
    using assms by (simp_all add: sz)
  have a: "Im2col_NCHW ?d (map Float32 [0..15]) col0
      = Im2col_NCHW ?d (map Float32 [0..15]) (replicate 36 0)"
    by (rule Im2col_NCHW_overwrites[OF v s f l(1,2,3)])
  have b: "Col2im_NCHW ?d (replicate 36 (Float32 1)) im0
      = Col2im_NCHW ?d (replicate 36 (Float32 1)) (replicate 16 0)"
    by (simp only: Col2im_NCHW_zero_filled[OF l(4)] Col2im_NCHW_zero_filled[OF l(5)])
  have e: "Im2col_NCHW ?d (map Float32 [0..15]) (replicate 36 0)
       = Some (map Float32 [0, 1, 2, 4, 5, 6, 8, 9, 10,
                            1, 2, 3, 5, 6, 7, 9, 10, 11,
                            4, 5, 6, 8, 9, 10, 12, 13, 14,
                            5, 6, 7, 9, 10, 11, 13, 14, 15])"
    "Col2im_NCHW ?d (replicate 36 (Float32 1)) (replicate 16 0)
       = Some (map Float32 [1, 2, 2, 1,
                            2, 4, 4, 2,
                            2, 4, 4, 2,
                            1, 2, 2, 1])"
    by code_simp+
  show "Im2col_NCHW window_4x4_k2 (map Float32 [0..15]) col0
       = Some (map Float32 [0, 1, 2, 4, 5, 6, 8, 9, 10,
                            1, 2, 3, 5, 6, 7, 9, 10, 11,
                            4, 5, 6, 8, 9, 10, 12, 13, 14,
                            5, 6, 7, 9, 10, 11, 13, 14, 15])"
    by (simp only: a e)
  show "Col2im_NCHW window_4x4_k2 (replicate 36 (Float32 1)) im0
       = Some (map Float32 [1, 2, 2, 1,
                            2, 4, 4, 2,
                            2, 4, 4, 2,
                            1, 2, 2, 1])"
    by (simp only: b e)
qed

end
